theory Spec2Isabelle
  imports Main "HOL-Library.AList"
begin

section \<open>Python strings and the Unicode character database\<close>

text \<open>
  The toolkit (\<^verbatim>\<open>id_card_toolkit.py\<close>, class \<^verbatim>\<open>IDCardToolkit\<close>) works on Python
  \<^verbatim>\<open>str\<close> values: sequences of Unicode code points. A character is modelled by its code
  point, a string by the list of its code points, and an ASCII literal is written
  \<open>of_ascii ''...''\<close>.
\<close>

type_synonym uchar = nat
type_synonym ustr = "nat list"

definition of_ascii :: "string \<Rightarrow> ustr" where
  "of_ascii s = map of_char s"

text \<open>
  \<^verbatim>\<open>str.strip\<close>, \<^verbatim>\<open>str.upper\<close>, \<^verbatim>\<open>str.isdigit\<close>, \<^verbatim>\<open>int\<close> and the regular expression class
  \<^verbatim>\<open>\d\<close> read the interpreter's Unicode character database, which is not part of the
  repository. It is a parameter of the model:
  \<^item> \<open>isspace\<close>: the white space property (\<^verbatim>\<open>Py_UNICODE_ISSPACE\<close>);
  \<^item> \<open>isdigit\<close>: numeric type Digit or Decimal (\<^verbatim>\<open>Py_UNICODE_ISDIGIT\<close>);
  \<^item> \<open>todecimal\<close>: the value of a decimal digit, \<open>None\<close> for every other character
    (\<^verbatim>\<open>Py_UNICODE_TODECIMAL\<close>);
  \<^item> \<open>toupper\<close>: the full upper-case mapping, which may yield several characters.
\<close>

record ucd =
  isspace :: "uchar \<Rightarrow> bool"
  isdigit :: "uchar \<Rightarrow> bool"
  todecimal :: "uchar \<Rightarrow> nat option"
  toupper :: "uchar \<Rightarrow> ustr"

text \<open>The exceptions that the modelled code can raise.\<close>

datatype exn = ValueError | IndexError | FileNotFoundError | PermissionError | JSONDecodeError

definition str_strip :: "ucd \<Rightarrow> ustr \<Rightarrow> ustr" where
  "str_strip U s = rev (dropWhile (isspace U) (rev (dropWhile (isspace U) s)))"

definition str_upper :: "ucd \<Rightarrow> ustr \<Rightarrow> ustr" where
  "str_upper U s = concat (map (toupper U) s)"

text \<open>\<^verbatim>\<open>str.isdigit\<close> is false on the empty string.\<close>

definition str_isdigit :: "ucd \<Rightarrow> ustr \<Rightarrow> bool" where
  "str_isdigit U s = (s \<noteq> [] \<and> list_all (isdigit U) s)"

subsection \<open>\<^verbatim>\<open>int(str)\<close>\<close>

text \<open>
  \<^verbatim>\<open>int\<close> on a string first maps every character from U+007F on to ASCII (white space to
  a blank, a decimal digit to its ASCII digit, anything else to \<^verbatim>\<open>?\<close>), then reads, in
  base ten: C white space, an optional sign, digits with single underscores between them,
  C white space, and the end of the string. The source applies it to slices of at most
  three characters only, far below the interpreter's limit on the number of digits.
\<close>

definition to_ascii :: "ucd \<Rightarrow> uchar \<Rightarrow> nat" where
  "to_ascii U c =
     (if c < 127 then c
      else if isspace U c then 32
      else case todecimal U c of None \<Rightarrow> 63 | Some v \<Rightarrow> 48 + v)"

definition c_isspace :: "nat \<Rightarrow> bool" where
  "c_isspace c = (c = 32 \<or> (9 \<le> c \<and> c \<le> 13))"

definition c_isdigit :: "nat \<Rightarrow> bool" where
  "c_isdigit c = (48 \<le> c \<and> c \<le> 57)"

fun double_underscore :: "nat list \<Rightarrow> bool" where
  "double_underscore (a # b # r) = ((a = 95 \<and> b = 95) \<or> double_underscore (b # r))"
| "double_underscore _ = False"

definition long_from_string :: "nat list \<Rightarrow> exn + int" where
  "long_from_string t =
     (let t1 = dropWhile c_isspace t;
          neg = (t1 \<noteq> [] \<and> hd t1 = 45);
          t2 = (if t1 \<noteq> [] \<and> (hd t1 = 43 \<or> hd t1 = 45) then tl t1 else t1);
          body = takeWhile (\<lambda>c. c_isdigit c \<or> c = 95) t2;
          rest = dropWhile (\<lambda>c. c_isdigit c \<or> c = 95) t2
      in if body = [] \<or> hd body = 95 \<or> last body = 95 \<or> double_underscore body
            \<or> dropWhile c_isspace rest \<noteq> []
         then Inl ValueError
         else Inr ((if neg then - 1 else 1)
                   * int (foldl (\<lambda>a c. 10 * a + (c - 48)) 0 (filter c_isdigit body))))"

definition py_int :: "ucd \<Rightarrow> ustr \<Rightarrow> exn + int" where
  "py_int U s = long_from_string (map (to_ascii U) s)"

section \<open>The check character\<close>

text \<open>The two tables that \<^verbatim>\<open>__init__\<close> stores in the object.\<close>

definition WEIGHTS :: "int list" where
  "WEIGHTS = [7, 9, 10, 5, 8, 4, 2, 1, 6, 3, 7, 9, 10, 5, 8, 4, 2]"

definition CHECKSUM_MAP :: "uchar list" where
  "CHECKSUM_MAP = of_ascii ''10X98765432''"

text \<open>
  \<^verbatim>\<open>sum(int(digit) * weight for digit, weight in zip(id_prefix, self.WEIGHTS))\<close>: the
  products are added from the left, and the first \<^verbatim>\<open>int(digit)\<close> that raises ends the sum.
\<close>

fun sum_products :: "ucd \<Rightarrow> int \<Rightarrow> (uchar \<times> int) list \<Rightarrow> exn + int" where
  "sum_products U tot [] = Inr tot"
| "sum_products U tot ((digit, weight) # ps) =
     (case py_int U [digit] of
        Inl e \<Rightarrow> Inl e
      | Inr d \<Rightarrow> sum_products U (tot + d * weight) ps)"

definition calculate_checksum :: "ucd \<Rightarrow> ustr \<Rightarrow> exn + uchar" where
  "calculate_checksum U id_prefix =
     (if \<not> (length id_prefix = 17 \<and> str_isdigit U id_prefix) then Inl ValueError
      else case sum_products U 0 (zip id_prefix WEIGHTS) of
             Inl e \<Rightarrow> Inl e
           | Inr tot \<Rightarrow> Inr (CHECKSUM_MAP ! nat (tot mod 11)))"

section \<open>Dates\<close>

text \<open>
  \<^verbatim>\<open>datetime.date\<close> and \<^verbatim>\<open>datetime.datetime\<close>. The current time is read from the system
  clock by \<^verbatim>\<open>datetime.datetime.now()\<close> and \<^verbatim>\<open>datetime.date.today()\<close>; the model takes
  the clock readings as arguments.
\<close>

record date =
  year :: nat
  month :: nat
  day :: nat

record datetime = date +
  hour :: nat
  minute :: nat
  second :: nat
  microsecond :: nat

fun lex_less :: "nat list \<Rightarrow> nat list \<Rightarrow> bool" where
  "lex_less (x # xs) (y # ys) = (x < y \<or> (x = y \<and> lex_less xs ys))"
| "lex_less _ _ = False"

definition dt_fields :: "datetime \<Rightarrow> nat list" where
  "dt_fields t = [year t, month t, day t, hour t, minute t, second t, microsecond t]"

text \<open>\<open>dt_gt a b\<close> is the comparison \<^verbatim>\<open>a > b\<close> of two naive datetimes.\<close>

definition dt_gt :: "datetime \<Rightarrow> datetime \<Rightarrow> bool" where
  "dt_gt a b = lex_less (dt_fields b) (dt_fields a)"

definition is_leap :: "nat \<Rightarrow> bool" where
  "is_leap y = (y mod 4 = 0 \<and> (y mod 100 \<noteq> 0 \<or> y mod 400 = 0))"

definition days_in_month :: "nat \<Rightarrow> nat \<Rightarrow> nat" where
  "days_in_month y m =
     (if m = 2 then (if is_leap y then 29 else 28)
      else if m = 4 \<or> m = 6 \<or> m = 9 \<or> m = 11 then 30 else 31)"

subsection \<open>\<^verbatim>\<open>datetime.datetime.strptime(s, "%Y%m%d")\<close>\<close>

text \<open>
  The library turns the format into the regular expression
  \<^verbatim>\<open>(?P<Y>\d\d\d\d)(?P<m>1[0-2]|0[1-9]|[1-9])(?P<d>3[0-1]|[1-2]\d|0[1-9]|[1-9]| [1-9])\<close>,
  matches it at the start of the string (the first match in the order of the
  alternatives, with backtracking), raises \<^verbatim>\<open>ValueError\<close> when there is no match or when
  the match does not end at the end of the string, converts the three groups with
  \<^verbatim>\<open>int\<close>, and raises \<^verbatim>\<open>ValueError\<close> when they are not a date of the proleptic Gregorian
  calendar in the years 1 to 9999. On a \<^verbatim>\<open>str\<close>, \<^verbatim>\<open>\d\<close> is any Unicode decimal digit.
  (The expression is compiled ignoring case; no character other than the ASCII digits
  and the blank has a lower-case form among them.)
\<close>

definition re_digit :: "ucd \<Rightarrow> uchar \<Rightarrow> bool" where
  "re_digit U c = (todecimal U c \<noteq> None)"

text \<open>The candidate matches of a group, each with the text left after it, in the order
  in which the matcher tries them.\<close>

definition match_m :: "ustr \<Rightarrow> (ustr \<times> ustr) list" where
  "match_m s =
     (case s of
        a # b # r \<Rightarrow>
          (if a = 49 \<and> 48 \<le> b \<and> b \<le> 50 then [([a, b], r)] else [])
          @ (if a = 48 \<and> 49 \<le> b \<and> b \<le> 57 then [([a, b], r)] else [])
      | _ \<Rightarrow> [])
     @ (case s of a # r \<Rightarrow> if 49 \<le> a \<and> a \<le> 57 then [([a], r)] else [] | [] \<Rightarrow> [])"

definition match_d :: "ucd \<Rightarrow> ustr \<Rightarrow> (ustr \<times> ustr) list" where
  "match_d U s =
     (case s of
        a # b # r \<Rightarrow>
          (if a = 51 \<and> (b = 48 \<or> b = 49) then [([a, b], r)] else [])
          @ (if (a = 49 \<or> a = 50) \<and> re_digit U b then [([a, b], r)] else [])
          @ (if a = 48 \<and> 49 \<le> b \<and> b \<le> 57 then [([a, b], r)] else [])
      | _ \<Rightarrow> [])
     @ (case s of a # r \<Rightarrow> if 49 \<le> a \<and> a \<le> 57 then [([a], r)] else [] | [] \<Rightarrow> [])
     @ (case s of
          a # b # r \<Rightarrow> if a = 32 \<and> 49 \<le> b \<and> b \<le> 57 then [([a, b], r)] else []
        | _ \<Rightarrow> [])"

text \<open>The groups Y, m and d of the first match, and the unconverted rest.\<close>

definition re_match_ymd :: "ucd \<Rightarrow> ustr \<Rightarrow> (ustr \<times> ustr \<times> ustr \<times> ustr) option" where
  "re_match_ymd U s =
     (if 4 \<le> length s \<and> list_all (re_digit U) (take 4 s)
      then (case concat (map (\<lambda>(m, r). map (\<lambda>(d, r'). (take 4 s, m, d, r')) (match_d U r))
                              (match_m (drop 4 s))) of
              [] \<Rightarrow> None
            | x # _ \<Rightarrow> Some x)
      else None)"

definition valid_ymd :: "int \<Rightarrow> int \<Rightarrow> int \<Rightarrow> bool" where
  "valid_ymd y m d =
     (1 \<le> y \<and> y \<le> 9999 \<and> 1 \<le> m \<and> m \<le> 12 \<and> 1 \<le> d \<and> d \<le> int (days_in_month (nat y) (nat m)))"

definition strptime :: "ucd \<Rightarrow> ustr \<Rightarrow> exn + datetime" where
  "strptime U s =
     (case re_match_ymd U s of
        None \<Rightarrow> Inl ValueError
      | Some (Y, m, d, rest) \<Rightarrow>
          if rest \<noteq> [] then Inl ValueError
          else (case py_int U Y of Inl e \<Rightarrow> Inl e | Inr y \<Rightarrow>
                (case py_int U m of Inl e \<Rightarrow> Inl e | Inr mo \<Rightarrow>
                 (case py_int U d of Inl e \<Rightarrow> Inl e | Inr dd \<Rightarrow>
                    if valid_ymd y mo dd
                    then Inr \<lparr> year = nat y, month = nat mo, day = nat dd,
                               hour = 0, minute = 0, second = 0, microsecond = 0 \<rparr>
                    else Inl ValueError))))"

section \<open>The region table\<close>

text \<open>
  The region file is a JSON list of nodes with a code, a name and, optionally, children.
  \<^verbatim>\<open>_flatten_codes\<close> writes every node of the tree, at every level, into one dictionary
  from code to the concatenated names of the node's ancestors and its own.
\<close>

datatype region_node = Node ustr ustr "region_node list option"

fun flatten_codes :: "region_node list \<Rightarrow> ustr \<Rightarrow> (ustr \<rightharpoonup> ustr) \<Rightarrow> (ustr \<rightharpoonup> ustr)" where
  "flatten_codes [] parent_name result = result"
| "flatten_codes (Node code name children # items) parent_name result =
     (let current_full_name = parent_name @ name;
          result1 = result(code \<mapsto> current_full_name);
          result2 = (case children of
                       None \<Rightarrow> result1
                     | Some cs \<Rightarrow> flatten_codes cs current_full_name result1)
      in flatten_codes items parent_name result2)"

record toolkit =
  area_codes :: "ustr \<rightharpoonup> ustr"

text \<open>
  \<^verbatim>\<open>__init__\<close>. Opening and parsing the file is the environment's part: its outcome, the
  parsed tree or the exception raised, is the argument. Only \<^verbatim>\<open>FileNotFoundError\<close> is
  caught (a message is printed and the table is left empty); any other exception leaves
  the constructor.
\<close>

definition init :: "exn + region_node list \<Rightarrow> exn + toolkit" where
  "init loaded =
     (case loaded of
        Inr pca_data \<Rightarrow> Inr \<lparr> area_codes = flatten_codes pca_data [] Map.empty \<rparr>
      | Inl e \<Rightarrow> if e = FileNotFoundError then Inr \<lparr> area_codes = Map.empty \<rparr> else Inl e)"

section \<open>Validation\<close>

text \<open>
  The reason strings of \<^verbatim>\<open>validate\<close>, one constructor for each message of the source,
  with the values that the message quotes.
\<close>

datatype reason =
    LengthError
  | PrefixFormatError
  | LastCharFormatError
  | AddressError ustr
  | FutureDateError ustr
  | InvalidDateError ustr
  | ChecksumError uchar uchar
  | InternalError
  | IdValid

datatype reason_kind = KLength | KFormat | KAddress | KDate | KChecksum | KInternal | KSuccess

fun kind_of :: "reason \<Rightarrow> reason_kind" where
  "kind_of LengthError = KLength"
| "kind_of PrefixFormatError = KFormat"
| "kind_of LastCharFormatError = KFormat"
| "kind_of (AddressError _) = KAddress"
| "kind_of (FutureDateError _) = KDate"
| "kind_of (InvalidDateError _) = KDate"
| "kind_of (ChecksumError _ _) = KChecksum"
| "kind_of InternalError = KInternal"
| "kind_of IdValid = KSuccess"

text \<open>\<^verbatim>\<open>id_number.strip().upper()\<close>, the first statement of \<^verbatim>\<open>validate\<close>.\<close>

definition normalize :: "ucd \<Rightarrow> ustr \<Rightarrow> ustr" where
  "normalize U s = str_upper U (str_strip U s)"

text \<open>
  \<^verbatim>\<open>validate\<close>. Each \<^verbatim>\<open>try\<close> catches \<^verbatim>\<open>ValueError\<close> only; another exception would leave
  the function.
\<close>

definition validate :: "ucd \<Rightarrow> toolkit \<Rightarrow> datetime \<Rightarrow> ustr \<Rightarrow> exn + (bool \<times> reason)" where
  "validate U self now id_number0 =
     (let id_number = normalize U id_number0 in
      if length id_number \<noteq> 18 then Inr (False, LengthError)
      else let prefix = butlast id_number in
      if \<not> str_isdigit U prefix then Inr (False, PrefixFormatError)
      else let last_char = last id_number in
      if \<not> (str_isdigit U [last_char] \<or> last_char = 88) then Inr (False, LastCharFormatError)
      else let area_code = take 6 id_number in
      if area_codes self area_code = None then Inr (False, AddressError area_code)
      else let birth_date_str = take 8 (drop 6 id_number) in
      case strptime U birth_date_str of
        Inl e \<Rightarrow> if e = ValueError then Inr (False, InvalidDateError birth_date_str) else Inl e
      | Inr birth_date \<Rightarrow>
          if dt_gt birth_date now then Inr (False, FutureDateError birth_date_str)
          else (case calculate_checksum U prefix of
                  Inl e \<Rightarrow> if e = ValueError then Inr (False, InternalError) else Inl e
                | Inr expected_checksum \<Rightarrow>
                    if last_char \<noteq> expected_checksum
                    then Inr (False, ChecksumError expected_checksum last_char)
                    else Inr (True, IdValid)))"

section \<open>Parsing\<close>

text \<open>
  The dictionary that \<^verbatim>\<open>parse\<close> returns. A name looked up in the table is \<open>Known\<close>; the
  three fallback labels quote the code that was not found. The birth date is kept as a
  date (the source renders it with \<^verbatim>\<open>strftime("%Y-%m-%d")\<close>), the sex as a constructor.
\<close>

datatype label = Known ustr | UnknownProvince ustr | UnknownCity ustr | UnknownDistrict ustr

datatype gender = Male | Female

record parsed_identity =
  p_address_code :: ustr
  p_province :: label
  p_city :: label
  p_district :: label
  p_birth_date :: date
  p_age :: int
  p_gender :: gender
  p_sequence_code :: ustr
  p_checksum :: ustr

datatype parse_result = Invalid reason | Parsed parsed_identity

definition lookup_label :: "toolkit \<Rightarrow> ustr \<Rightarrow> label \<Rightarrow> label" where
  "lookup_label self code fallback =
     (case area_codes self code of None \<Rightarrow> fallback | Some n \<Rightarrow> Known n)"

text \<open>
  \<^verbatim>\<open>parse\<close>. After \<^verbatim>\<open>validate\<close> has accepted the number, the fields are sliced from the
  argument as it was passed: \<^verbatim>\<open>validate\<close> normalises its own local copy only.
  \<open>today\<close> is the reading of \<^verbatim>\<open>datetime.date.today()\<close>.
\<close>

definition parse :: "ucd \<Rightarrow> toolkit \<Rightarrow> datetime \<Rightarrow> date \<Rightarrow> ustr \<Rightarrow> exn + parse_result" where
  "parse U self now today id_number =
     (case validate U self now id_number of
        Inl e \<Rightarrow> Inl e
      | Inr (is_valid, message) \<Rightarrow>
          if \<not> is_valid then Inr (Invalid message)
          else let area_code = take 6 id_number;
                   birth_date_str = take 8 (drop 6 id_number);
                   province_code = take 2 area_code;
                   city_code = take 4 area_code in
          (case strptime U birth_date_str of
             Inl e \<Rightarrow> Inl e
           | Inr birth \<Rightarrow>
               let age = int (year today) - int (year birth)
                         - (if lex_less [month today, day today] [month birth, day birth]
                            then 1 else 0) in
               (case py_int U (take 3 (drop 14 id_number)) of
                  Inl e \<Rightarrow> Inl e
                | Inr seq_code \<Rightarrow>
                    (case (if length id_number \<le> 16 then Inl IndexError
                           else py_int U [id_number ! 16]) of
                       Inl e \<Rightarrow> Inl e
                     | Inr g \<Rightarrow>
                         if id_number = [] then Inl IndexError
                         else Inr (Parsed
                           \<lparr> p_address_code = area_code,
                             p_province = lookup_label self province_code (UnknownProvince province_code),
                             p_city = lookup_label self city_code (UnknownCity city_code),
                             p_district = lookup_label self area_code (UnknownDistrict area_code),
                             p_birth_date = \<lparr> year = year birth, month = month birth, day = day birth \<rparr>,
                             p_age = age,
                             p_gender = (if g mod 2 \<noteq> 0 then Male else Female),
                             p_sequence_code = take 3 (drop 14 id_number),
                             p_checksum = [last id_number] \<rparr>)))))"

section \<open>Reverse generation\<close>

text \<open>\<^verbatim>\<open>range(start, stop, step)\<close> for a positive step.\<close>

definition range_step :: "nat \<Rightarrow> nat \<Rightarrow> nat \<Rightarrow> nat list" where
  "range_step start stop step =
     map (\<lambda>k. start + k * step) [0 ..< (stop - start + step - 1) div step]"

text \<open>\<^verbatim>\<open>f"{i:03d}"\<close>: the decimal digits of \<open>i\<close>, padded with zeros to three characters.\<close>

fun dec_digits :: "nat \<Rightarrow> ustr" where
  "dec_digits n = (if n < 10 then [48 + n] else dec_digits (n div 10) @ [48 + n mod 10])"

declare dec_digits.simps [simp del]

definition fmt03 :: "nat \<Rightarrow> ustr" where
  "fmt03 i = replicate (3 - length (dec_digits i)) 48 @ dec_digits i"

text \<open>
  The three error messages of \<^verbatim>\<open>guess\<close>. The source returns a message as a list of one
  string; the model returns \<open>Inr (Inl message)\<close> for it, \<open>Inr (Inr ids)\<close> for a list of
  candidates, and \<open>Inl e\<close> when an exception leaves the function.
\<close>

datatype guess_error = BadAreaCode ustr | BadBirthDate ustr | BadGender

fun guess_loop :: "ucd \<Rightarrow> ustr \<Rightarrow> nat list \<Rightarrow> ustr list \<Rightarrow> exn + ustr list" where
  "guess_loop U prefix_14 [] possible_ids = Inr possible_ids"
| "guess_loop U prefix_14 (i # rest) possible_ids =
     (let seq_code = fmt03 i;
          prefix_17 = prefix_14 @ seq_code
      in case calculate_checksum U prefix_17 of
           Inl e \<Rightarrow> Inl e
         | Inr c \<Rightarrow> guess_loop U prefix_14 rest (possible_ids @ [prefix_17 @ [c]]))"

definition guess :: "ucd \<Rightarrow> toolkit \<Rightarrow> ustr \<Rightarrow> ustr \<Rightarrow> ustr \<Rightarrow> exn + (guess_error + ustr list)" where
  "guess U self area_code birth_date gender0 =
     (if area_codes self area_code = None then Inr (Inl (BadAreaCode area_code))
      else case strptime U birth_date of
        Inl e \<Rightarrow> if e = ValueError then Inr (Inl (BadBirthDate birth_date)) else Inl e
      | Inr _ \<Rightarrow>
          let gender = str_upper U gender0 in
          if gender \<noteq> of_ascii ''M'' \<and> gender \<noteq> of_ascii ''F'' then Inr (Inl BadGender)
          else let prefix_14 = area_code @ birth_date;
                   start = (if gender = of_ascii ''M'' then 1 else 2) in
          (case guess_loop U prefix_14 (range_step start 1000 2) [] of
             Inl e \<Rightarrow> Inl e
           | Inr possible_ids \<Rightarrow> Inr (Inr possible_ids)))"

section \<open>Population sample analysis\<close>

text \<open>
  Python dictionaries keep their keys in the order of first insertion; assigning to a
  key that is present replaces its value in place. They are modelled as association
  lists with \<^const>\<open>AList.update\<close> and \<^const>\<open>map_of\<close>. A report entry has the
  sample count, the two estimates and their sum; the constant remark that the source
  adds to every entry is left out.
\<close>

record bucket =
  male_seqs :: "int list"
  female_seqs :: "int list"

record estimate =
  sample_count :: nat
  est_males :: int
  est_females :: int
  est_total :: int

record summary =
  total_records :: nat
  valid_records :: nat
  invalid_records :: nat

record analysis =
  a_summary :: summary
  a_report :: "(ustr \<times> estimate) list"
  a_invalid :: "(ustr \<times> reason) list"

text \<open>The first loop: every number is validated and filed as valid or invalid.\<close>

fun validate_loop ::
  "ucd \<Rightarrow> toolkit \<Rightarrow> datetime \<Rightarrow> ustr list \<Rightarrow> ustr list \<Rightarrow> (ustr \<times> reason) list
   \<Rightarrow> exn + (ustr list \<times> (ustr \<times> reason) list)" where
  "validate_loop U self now [] valid_ids invalid_details = Inr (valid_ids, invalid_details)"
| "validate_loop U self now (id_number # rest) valid_ids invalid_details =
     (case validate U self now id_number of
        Inl e \<Rightarrow> Inl e
      | Inr (is_valid, message) \<Rightarrow>
          if is_valid then validate_loop U self now rest (valid_ids @ [id_number]) invalid_details
          else validate_loop U self now rest valid_ids (invalid_details @ [(id_number, message)]))"

text \<open>The second loop: the sequence number of every valid number is appended to the
  male or the female list of its bucket. The slices are taken from the number as it
  stands in the input list.\<close>

definition empty_bucket :: bucket where
  "empty_bucket = \<lparr> male_seqs = [], female_seqs = [] \<rparr>"

fun stats_loop ::
  "ucd \<Rightarrow> ustr list \<Rightarrow> ((ustr \<times> ustr) \<times> bucket) list \<Rightarrow> exn + ((ustr \<times> ustr) \<times> bucket) list" where
  "stats_loop U [] stats = Inr stats"
| "stats_loop U (id_number # rest) stats =
     (let key = (take 6 id_number, take 8 (drop 6 id_number)) in
      case py_int U (take 3 (drop 14 id_number)) of
        Inl e \<Rightarrow> Inl e
      | Inr seq \<Rightarrow>
          let data = (case map_of stats key of None \<Rightarrow> empty_bucket | Some b \<Rightarrow> b) in
          stats_loop U rest
            (AList.update key
               (if seq mod 2 \<noteq> 0 then data\<lparr> male_seqs := male_seqs data @ [seq] \<rparr>
                else data\<lparr> female_seqs := female_seqs data @ [seq] \<rparr>)
               stats))"

text \<open>\<^verbatim>\<open>max\<close> of a non-empty list.\<close>

definition py_max :: "int list \<Rightarrow> int" where
  "py_max xs = fold max (tl xs) (hd xs)"

definition report_entry :: "bucket \<Rightarrow> estimate" where
  "report_entry data =
     (let max_male_seq = (if male_seqs data \<noteq> [] then py_max (male_seqs data) else 0);
          max_female_seq = (if female_seqs data \<noteq> [] then py_max (female_seqs data) else 0);
          estimated_males = (if max_male_seq > 0 then (max_male_seq + 1) div 2 else 0);
          estimated_females = (if max_female_seq > 0 then max_female_seq div 2 else 0)
      in \<lparr> sample_count = length (male_seqs data) + length (female_seqs data),
            est_males = estimated_males,
            est_females = estimated_females,
            est_total = estimated_males + estimated_females \<rparr>)"

text \<open>The name under which a region without a table entry is reported (four CJK
  characters in the source).\<close>

definition unknown_area :: ustr where
  "unknown_area = [26410, 30693, 22320, 21306]"

definition report_key :: "toolkit \<Rightarrow> ustr \<times> ustr \<Rightarrow> ustr" where
  "report_key self key =
     (case key of (area_code, date_str) \<Rightarrow>
        (case area_codes self area_code of None \<Rightarrow> unknown_area | Some n \<Rightarrow> n)
        @ of_ascii '' ('' @ date_str @ of_ascii '')'')"

text \<open>The third loop: one report entry for each bucket, stored under its display key.\<close>

fun report_loop ::
  "toolkit \<Rightarrow> ((ustr \<times> ustr) \<times> bucket) list \<Rightarrow> (ustr \<times> estimate) list \<Rightarrow> (ustr \<times> estimate) list" where
  "report_loop self [] analysis_report = analysis_report"
| "report_loop self ((key, data) # rest) analysis_report =
     report_loop self rest (AList.update (report_key self key) (report_entry data) analysis_report)"

definition analyze_population_sample ::
  "ucd \<Rightarrow> toolkit \<Rightarrow> datetime \<Rightarrow> ustr list \<Rightarrow> exn + analysis" where
  "analyze_population_sample U self now id_list =
     (case validate_loop U self now id_list [] [] of
        Inl e \<Rightarrow> Inl e
      | Inr (valid_ids, invalid_details) \<Rightarrow>
          (case stats_loop U valid_ids [] of
             Inl e \<Rightarrow> Inl e
           | Inr stats \<Rightarrow>
               Inr \<lparr> a_summary = \<lparr> total_records = length id_list,
                                  valid_records = length valid_ids,
                                  invalid_records = length invalid_details \<rparr>,
                     a_report = report_loop self stats [],
                     a_invalid = invalid_details \<rparr>))"

section \<open>What the claims assume of the character database\<close>

text \<open>
  On the ten ASCII digits and the letters X, M and F every Unicode database agrees: the
  digits are decimal digits with the values 0 to 9, none of these characters is white
  space, and upper-casing leaves each of them alone.
\<close>

definition ascii_digit :: "uchar \<Rightarrow> bool" where
  "ascii_digit c = (48 \<le> c \<and> c \<le> 57)"

definition ascii_ok :: "ucd \<Rightarrow> bool" where
  "ascii_ok U =
     ((\<forall>c \<in> set [48..<58]. isdigit U c \<and> todecimal U c = Some (c - 48)
                              \<and> \<not> isspace U c \<and> toupper U c = [c])
      \<and> (\<forall>c \<in> set (of_ascii ''XMF''). \<not> isdigit U c \<and> \<not> isspace U c \<and> toupper U c = [c]))"

text \<open>
  Two facts about upper-casing that hold in Unicode: the upper-case form of a character
  that is not white space is not empty and neither begins nor ends with white space,
  and upper-casing an upper-case form changes nothing.
\<close>

definition case_ok :: "ucd \<Rightarrow> bool" where
  "case_ok U =
     ((\<forall>c. \<not> isspace U c \<longrightarrow>
            toupper U c \<noteq> [] \<and> \<not> isspace U (hd (toupper U c))
            \<and> \<not> isspace U (last (toupper U c)))
      \<and> (\<forall>c. str_upper U (toupper U c) = toupper U c))"

text \<open>
  A database for the examples: Unicode restricted to U+0000..U+00FF. Beyond the ASCII
  digits it knows the superscript digits U+00B2, U+00B3 and U+00B9, which are digits
  without being decimal digits, the Latin-1 white space, and the upper-case mappings of
  the Latin-1 letters (sharp s becomes SS, micro and y with diaeresis leave Latin-1).
\<close>

definition latin1 :: ucd where
  "latin1 =
     \<lparr> isspace = (\<lambda>c. (9 \<le> c \<and> c \<le> 13) \<or> (28 \<le> c \<and> c \<le> 32) \<or> c = 133 \<or> c = 160),
       isdigit = (\<lambda>c. (48 \<le> c \<and> c \<le> 57) \<or> c = 178 \<or> c = 179 \<or> c = 185),
       todecimal = (\<lambda>c. if 48 \<le> c \<and> c \<le> 57 then Some (c - 48) else None),
       toupper = (\<lambda>c. if 97 \<le> c \<and> c \<le> 122 then [c - 32]
                       else if c = 181 then [924]
                       else if c = 223 then [83, 83]
                       else if 224 \<le> c \<and> c \<le> 254 \<and> c \<noteq> 247 then [c - 32]
                       else if c = 255 then [376]
                       else [c]) \<rparr>"

text \<open>
  The check character by the formula of the specification, for a prefix of ASCII
  digits: the table entry at the weighted digit sum modulo 11.
\<close>

definition check_char :: "ustr \<Rightarrow> uchar" where
  "check_char p =
     CHECKSUM_MAP ! nat ((\<Sum>(d, w) \<leftarrow> zip p WEIGHTS. int (d - 48) * w) mod 11)"

text \<open>
  The candidate number with the 14-character prefix \<open>p\<close> and the sequence number \<open>i\<close>,
  and the sequence number that \<^verbatim>\<open>parse\<close> and the analysis read from a number,
  \<^verbatim>\<open>int(id_number[14:17])\<close>.
\<close>

definition candidate :: "ustr \<Rightarrow> nat \<Rightarrow> ustr" where
  "candidate p i = p @ fmt03 i @ [check_char (p @ fmt03 i)]"

definition sequence_number :: "ucd \<Rightarrow> ustr \<Rightarrow> exn + int" where
  "sequence_number U id_number = py_int U (take 3 (drop 14 id_number))"

text \<open>
  The analysis in the words of the specification: a number is accepted when \<^verbatim>\<open>validate\<close>
  returns true for it; its bucket is the pair of its characters 0 to 5 and 6 to 13; the
  observations of a bucket are the sequence numbers of the accepted numbers that fall
  into it; and the estimate for a list of observations is (largest odd observation + 1)
  divided by 2 for the males, 0 if no odd number was observed, and the largest even
  observation divided by 2 for the females, 0 if no even number was observed.
\<close>

definition accepted :: "ucd \<Rightarrow> toolkit \<Rightarrow> datetime \<Rightarrow> ustr \<Rightarrow> bool" where
  "accepted U self now x = (case validate U self now x of Inr (ok, _) \<Rightarrow> ok | Inl _ \<Rightarrow> False)"

definition bucket_key :: "ustr \<Rightarrow> ustr \<times> ustr" where
  "bucket_key x = (take 6 x, take 8 (drop 6 x))"

definition bucket_seqs :: "ucd \<Rightarrow> ustr list \<Rightarrow> ustr \<times> ustr \<Rightarrow> int list" where
  "bucket_seqs U ids k =
     map (\<lambda>x. case sequence_number U x of Inr n \<Rightarrow> n | Inl _ \<Rightarrow> 0)
         (filter (\<lambda>x. bucket_key x = k) ids)"

definition spec_estimate :: "int list \<Rightarrow> estimate" where
  "spec_estimate seqs =
     (let odds = filter odd seqs;
          evens = filter even seqs;
          m = (if odds = [] then 0 else (Max (set odds) + 1) div 2);
          f = (if evens = [] then 0 else Max (set evens) div 2)
      in \<lparr> sample_count = length seqs, est_males = m, est_females = f, est_total = m + f \<rparr>)"

text \<open>
  For the proofs about the second loop: the bucket that the \<^verbatim>\<open>defaultdict\<close> holds for a
  key, and a bucket with further observations appended.
\<close>

definition bucket_of :: "((ustr \<times> ustr) \<times> bucket) list \<Rightarrow> ustr \<times> ustr \<Rightarrow> bucket" where
  "bucket_of stats k = (case map_of stats k of None \<Rightarrow> empty_bucket | Some b \<Rightarrow> b)"

definition add_seqs :: "bucket \<Rightarrow> int list \<Rightarrow> bucket" where
  "add_seqs b seqs =
     \<lparr> male_seqs = male_seqs b @ filter (\<lambda>n. n mod 2 \<noteq> 0) seqs,
       female_seqs = female_seqs b @ filter (\<lambda>n. \<not> n mod 2 \<noteq> 0) seqs \<rparr>"

section \<open>Sample data for the examples\<close>

text \<open>A region file with one province (code 11), one city (1101) and two districts
  (110105 and 110106), the names given by their code points; and a clock reading.\<close>

definition sample_tree :: "region_node list" where
  "sample_tree =
     [Node (of_ascii ''11'') [21271, 20140, 24066]
        (Some [Node (of_ascii ''1101'') [24066, 36758, 21306]
                 (Some [Node (of_ascii ''110105'') [26397, 38451, 21306] None,
                        Node (of_ascii ''110106'') [20016, 21488, 21306] None])])]"

definition sample_toolkit :: toolkit where
  "sample_toolkit = \<lparr> area_codes = flatten_codes sample_tree [] Map.empty \<rparr>"

definition sample_now :: datetime where
  "sample_now = \<lparr> year = 2024, month = 6, day = 15,
                   hour = 10, minute = 30, second = 0, microsecond = 0 \<rparr>"

definition sample_today :: date where
  "sample_today = \<lparr> year = 2024, month = 6, day = 15 \<rparr>"

text \<open>A region file in which two districts have the same name.\<close>

definition twin_tree :: "region_node list" where
  "twin_tree =
     [Node (of_ascii ''110105'') [26032, 21306] None,
      Node (of_ascii ''110106'') [26032, 21306] None]"

definition twin_toolkit :: toolkit where
  "twin_toolkit = \<lparr> area_codes = flatten_codes twin_tree [] Map.empty \<rparr>"

section \<open>Basic facts\<close>

lemma ascii_ok_latin1: "ascii_ok latin1"
  by (simp add: ascii_ok_def latin1_def of_ascii_def)

lemma ascii_okD:
  assumes "ascii_ok U" and "ascii_digit c"
  shows "isdigit U c" and "todecimal U c = Some (c - 48)"
    and "\<not> isspace U c" and "toupper U c = [c]"
proof -
  from assms(2) have "c \<in> {48..<58}"
    by (simp add: ascii_digit_def)
  with assms(1) show "isdigit U c" and "todecimal U c = Some (c - 48)"
    and "\<not> isspace U c" and "toupper U c = [c]"
    unfolding ascii_ok_def set_upt by blast+
qed

lemma py_int_ascii_digit:
  "ascii_digit c \<Longrightarrow> py_int U [c] = Inr (int (c - 48))"
  by (auto simp: py_int_def to_ascii_def long_from_string_def c_isspace_def c_isdigit_def
      ascii_digit_def)

lemma sum_products_ascii:
  "list_all ascii_digit (map fst ps) \<Longrightarrow>
   sum_products U tot ps = Inr (tot + sum_list (map (\<lambda>(d, w). int (d - 48) * w) ps))"
  by (induction ps arbitrary: tot) (auto simp: py_int_ascii_digit)

lemma str_isdigit_ascii:
  "ascii_ok U \<Longrightarrow> list_all ascii_digit s \<Longrightarrow> s \<noteq> [] \<Longrightarrow> str_isdigit U s"
  by (auto simp: str_isdigit_def list_all_iff dest: ascii_okD(1))

lemma calculate_checksum_ascii:
  assumes "ascii_ok U" and "length p = 17" and "list_all ascii_digit p"
  shows "calculate_checksum U p =
         Inr (CHECKSUM_MAP ! nat ((\<Sum>(d, w) \<leftarrow> zip p WEIGHTS. int (d - 48) * w) mod 11))"
proof -
  from assms have "str_isdigit U p"
    by (intro str_isdigit_ascii) auto
  moreover have "list_all ascii_digit (map fst (zip p WEIGHTS))"
    using assms(2,3) by (simp add: WEIGHTS_def)
  ultimately show ?thesis
    using assms(2) by (simp add: calculate_checksum_def sum_products_ascii)
qed

lemma sum_list_zip_nth:
  "length p = length ws \<Longrightarrow>
   (\<Sum>(d, w) \<leftarrow> zip p ws. int (d - 48) * w) = (\<Sum>i<length p. int (p ! i - 48) * ws ! i)"
  by (simp add: sum_list_sum_nth atLeast0LessThan)

subsection \<open>Only \<^verbatim>\<open>ValueError\<close> is raised below \<^verbatim>\<open>validate\<close>\<close>

lemma if_Inl_Inr: "(if c then Inl a else Inr v) = Inl e \<Longrightarrow> e = a"
  by (simp split: if_splits)

lemma long_from_string_exn: "long_from_string t = Inl e \<Longrightarrow> e = ValueError"
  unfolding long_from_string_def Let_def by (erule if_Inl_Inr)

lemma py_int_exn: "py_int U s = Inl e \<Longrightarrow> e = ValueError"
  by (auto simp: py_int_def dest: long_from_string_exn)

lemma sum_products_exn: "sum_products U tot ps = Inl e \<Longrightarrow> e = ValueError"
  by (induction ps arbitrary: tot) (auto split: sum.splits dest: py_int_exn)

lemma calculate_checksum_exn: "calculate_checksum U p = Inl e \<Longrightarrow> e = ValueError"
  by (auto simp: calculate_checksum_def split: if_splits sum.splits dest: sum_products_exn)

lemma strptime_exn: "strptime U s = Inl e \<Longrightarrow> e = ValueError"
  unfolding strptime_def
  by (auto split: option.splits if_splits sum.splits prod.splits dest: py_int_exn)

lemma validate_total: "\<exists>b r. validate U self now s = Inr (b, r)"
  by (auto simp: validate_def Let_def split: sum.splits dest: strptime_exn calculate_checksum_exn)

subsection \<open>Slices of an 18-character string\<close>

lemma butlast_18: "length t = 18 \<Longrightarrow> butlast t = take 17 t"
  by (simp add: butlast_conv_take)

lemma last_18: "length t = 18 \<Longrightarrow> last t = t ! 17"
  by (cases t rule: rev_cases) (auto simp: nth_append)

section \<open>C1: the check character is the weighted digit sum modulo 11\<close>

text \<open>
  Claim C1. For every string \<open>p\<close> of exactly 17 ASCII digits, \<^verbatim>\<open>_calculate_checksum(p)\<close>
  returns the entry of the table 1, 0, X, 9, 8, 7, 6, 5, 4, 3, 2 at the index
  (sum of digit \<open>i\<close> of \<open>p\<close> times weight \<open>i\<close>, for \<open>i\<close> from 0 to 16) modulo 11, with the
  weights 7, 9, 10, 5, 8, 4, 2, 1, 6, 3, 7, 9, 10, 5, 8, 4, 2; in particular the prefix
  11010519491231002 yields X.
\<close>

theorem checksum_weighted_sum:
  assumes "ascii_ok U"
  shows "(length p = 17 \<and> list_all ascii_digit p \<longrightarrow>
            calculate_checksum U p =
            Inr (of_ascii ''10X98765432''
                 ! nat ((\<Sum>i<17. int (p ! i - 48)
                                   * [7, 9, 10, 5, 8, 4, 2, 1, 6, 3, 7, 9, 10, 5, 8, 4, 2] ! i) mod 11)))
         \<and> calculate_checksum U (of_ascii ''11010519491231002'') = Inr (of_char CHR ''X'')"
proof
  show "length p = 17 \<and> list_all ascii_digit p \<longrightarrow>
            calculate_checksum U p =
            Inr (of_ascii ''10X98765432''
                 ! nat ((\<Sum>i<17. int (p ! i - 48)
                                   * [7, 9, 10, 5, 8, 4, 2, 1, 6, 3, 7, 9, 10, 5, 8, 4, 2] ! i) mod 11))"
  proof
    assume p: "length p = 17 \<and> list_all ascii_digit p"
    then have "length p = length WEIGHTS"
      by (simp add: WEIGHTS_def)
    from sum_list_zip_nth [OF this] p assms show "calculate_checksum U p =
            Inr (of_ascii ''10X98765432''
                 ! nat ((\<Sum>i<17. int (p ! i - 48)
                                   * [7, 9, 10, 5, 8, 4, 2, 1, 6, 3, 7, 9, 10, 5, 8, 4, 2] ! i) mod 11))"
      by (simp add: calculate_checksum_ascii CHECKSUM_MAP_def WEIGHTS_def)
  qed
next
  have "list_all ascii_digit (of_ascii ''11010519491231002'')"
    by (simp add: of_ascii_def ascii_digit_def)
  moreover have "length (of_ascii ''11010519491231002'') = 17"
    by (simp add: of_ascii_def)
  ultimately show "calculate_checksum U (of_ascii ''11010519491231002'') = Inr (of_char CHR ''X'')"
    using assms
    by (simp add: calculate_checksum_ascii) (simp add: of_ascii_def WEIGHTS_def CHECKSUM_MAP_def)
qed

text \<open>The theorem at the prefix 11010519900307797, whose weighted sum is 274 and whose
  check character is 2.\<close>

theorem checksum_weighted_sum_witness:
  "ascii_ok latin1
   \<and> length (of_ascii ''11010519900307797'') = 17
   \<and> list_all ascii_digit (of_ascii ''11010519900307797'')
   \<and> calculate_checksum latin1 (of_ascii ''11010519900307797'') = Inr (of_char CHR ''2'')"
proof -
  have d: "length (of_ascii ''11010519900307797'') = 17
           \<and> list_all ascii_digit (of_ascii ''11010519900307797'')"
    by (simp add: of_ascii_def ascii_digit_def)
  have "(\<Sum>i<17. int (of_ascii ''11010519900307797'' ! i - 48)
                  * [7, 9, 10, 5, 8, 4, 2, 1, 6, 3, 7, 9, 10, 5, 8, 4, 2] ! i) mod 11 = 10"
    by (simp add: of_ascii_def lessThan_nat_numeral lessThan_Suc)
  with d checksum_weighted_sum [OF ascii_ok_latin1, of "of_ascii ''11010519900307797''"]
  show ?thesis
    by (simp add: ascii_ok_latin1) (simp add: of_ascii_def)
qed

subsection \<open>Strings that normalisation leaves alone\<close>

lemma dropWhile_hd: "s \<noteq> [] \<Longrightarrow> \<not> P (hd s) \<Longrightarrow> dropWhile P s = s"
  by (cases s) auto

lemma str_strip_id:
  assumes "s \<noteq> []" and "\<not> isspace U (hd s)" and "\<not> isspace U (last s)"
  shows "str_strip U s = s"
proof -
  have "dropWhile (isspace U) s = s"
    using assms(1,2) by (rule dropWhile_hd)
  moreover have "dropWhile (isspace U) (rev s) = rev s"
    using assms(1,3) by (intro dropWhile_hd) (simp_all add: hd_rev)
  ultimately show ?thesis
    by (simp add: str_strip_def)
qed

lemma str_upper_id: "(\<forall>c \<in> set s. toupper U c = [c]) \<Longrightarrow> str_upper U s = s"
  by (induction s) (auto simp: str_upper_def)

lemma ascii_ok_X:
  assumes "ascii_ok U"
  shows "\<not> isdigit U 88" and "\<not> isspace U 88" and "toupper U 88 = [88]"
  using assms by (simp_all add: ascii_ok_def of_ascii_def)

lemma id_char_plain:
  assumes "ascii_ok U" and "ascii_digit c \<or> c = 88"
  shows "\<not> isspace U c" and "toupper U c = [c]"
  using assms ascii_okD(3,4) [of U c] ascii_ok_X(2,3) [of U] by auto

lemma normalize_id_chars:
  assumes "ascii_ok U" and "s \<noteq> []" and "\<forall>c \<in> set s. ascii_digit c \<or> c = 88"
  shows "normalize U s = s"
proof -
  from assms(2,3) have "ascii_digit (hd s) \<or> hd s = 88" and "ascii_digit (last s) \<or> last s = 88"
    by simp_all
  with assms(1) have "\<not> isspace U (hd s)" and "\<not> isspace U (last s)"
    by (auto dest: id_char_plain(1))
  with assms(2) have "str_strip U s = s"
    by (rule str_strip_id)
  moreover from assms have "str_upper U s = s"
    by (intro str_upper_id) (auto intro: id_char_plain(2))
  ultimately show ?thesis
    by (simp add: normalize_def)
qed

lemma str_isdigit_single: "str_isdigit U [c] = isdigit U c"
  by (simp add: str_isdigit_def)

lemma validate_reject_length:
  "length (normalize U s) \<noteq> 18 \<Longrightarrow> validate U self now s = Inr (False, LengthError)"
  by (simp add: validate_def)

lemma validate_18:
  assumes "length (normalize U s) = 18"
  shows "validate U self now s =
     (let t = normalize U s in
      if \<not> str_isdigit U (take 17 t) then Inr (False, PrefixFormatError)
      else if \<not> (isdigit U (t ! 17) \<or> t ! 17 = 88) then Inr (False, LastCharFormatError)
      else if area_codes self (take 6 t) = None then Inr (False, AddressError (take 6 t))
      else case strptime U (take 8 (drop 6 t)) of
        Inl e \<Rightarrow> Inr (False, InvalidDateError (take 8 (drop 6 t)))
      | Inr birth \<Rightarrow>
          if dt_gt birth now then Inr (False, FutureDateError (take 8 (drop 6 t)))
          else (case calculate_checksum U (take 17 t) of
                  Inl e \<Rightarrow> Inr (False, InternalError)
                | Inr c \<Rightarrow>
                    if t ! 17 \<noteq> c then Inr (False, ChecksumError c (t ! 17))
                    else Inr (True, IdValid)))"
  using assms
  by (auto simp: validate_def Let_def butlast_18 last_18 str_isdigit_single
      split: sum.splits dest: strptime_exn calculate_checksum_exn)

lemma strip_snoc_nonspace:
  "\<not> isspace U c \<Longrightarrow> str_strip U (p @ [c]) = dropWhile (isspace U) p @ [c]"
  by (simp add: str_strip_def dropWhile_append)

lemma normalize_snoc_nonspace:
  "\<not> isspace U c \<Longrightarrow>
   normalize U (p @ [c]) = str_upper U (dropWhile (isspace U) p) @ toupper U c"
  by (simp add: normalize_def strip_snoc_nonspace str_upper_def)

text \<open>The definitions that a concrete evaluation unfolds.\<close>

lemmas eval_defs =
  validate_def normalize_def str_strip_def str_upper_def latin1_def of_ascii_def
  str_isdigit_def sample_toolkit_def sample_tree_def strptime_def re_match_ymd_def
  re_digit_def match_m_def match_d_def py_int_def to_ascii_def long_from_string_def
  c_isspace_def c_isdigit_def valid_ymd_def days_in_month_def is_leap_def dt_gt_def
  dt_fields_def sample_now_def calculate_checksum_def WEIGHTS_def CHECKSUM_MAP_def

section \<open>C2: the order of the checks in validate\<close>

text \<open>
  Claim C2 says that \<^verbatim>\<open>validate\<close> applies its checks to the input string in a fixed
  order and reports the first that fails. The checks are applied to the input after
  \<^verbatim>\<open>strip().upper()\<close>, not to the input itself: a valid number followed by a blank has 19
  characters and is accepted.
\<close>

theorem validate_accepts_19_characters:
  "length (of_ascii ''11010519491231002X '') = 19
   \<and> validate latin1 sample_toolkit sample_now (of_ascii ''11010519491231002X '')
       = Inr (True, IdValid)"
  by (simp add: eval_defs)


text \<open>
  Claim C2, amended. Let \<open>t\<close> be the input after \<^verbatim>\<open>strip().upper()\<close>. For every input,
  \<^verbatim>\<open>validate\<close> checks in this order and returns at the first check that fails: \<open>t\<close>
  does not have 18 characters (length error); the first 17 characters of \<open>t\<close> are not
  all digits (format error); the 18th is neither a digit nor X (format error); the first
  six are not a key of the region table (address error); characters 6 to 13 are not a
  calendar date (date error) or are a date after the current time (date error); the
  check character cannot be computed from the first 17, because \<^verbatim>\<open>int\<close> raises on one of
  them (internal error); the check character computed from the first 17 differs from the
  18th (checksum error). When every check passes the result is true with the success
  reason. These cases are exhaustive. Because of the upper-casing, a number that ends in
  a lower-case x is validated as the number that ends in X.
\<close>

theorem validate_check_order:
  assumes "t = normalize U s" and "V = validate U self now s"
  shows
   "(length t \<noteq> 18 \<longrightarrow> V = Inr (False, LengthError))
    \<and> (length t = 18 \<longrightarrow>
         (\<not> str_isdigit U (take 17 t) \<longrightarrow> V = Inr (False, PrefixFormatError))
       \<and> (str_isdigit U (take 17 t) \<longrightarrow>
            (\<not> (isdigit U (t ! 17) \<or> t ! 17 = of_char CHR ''X'') \<longrightarrow>
               V = Inr (False, LastCharFormatError))
          \<and> (isdigit U (t ! 17) \<or> t ! 17 = of_char CHR ''X'' \<longrightarrow>
               (area_codes self (take 6 t) = None \<longrightarrow>
                  V = Inr (False, AddressError (take 6 t)))
             \<and> (area_codes self (take 6 t) \<noteq> None \<longrightarrow>
                  (\<forall>e. strptime U (take 8 (drop 6 t)) = Inl e \<longrightarrow>
                     V = Inr (False, InvalidDateError (take 8 (drop 6 t))))
                \<and> (\<forall>birth. strptime U (take 8 (drop 6 t)) = Inr birth \<longrightarrow>
                     (dt_gt birth now \<longrightarrow>
                        V = Inr (False, FutureDateError (take 8 (drop 6 t))))
                   \<and> (\<not> dt_gt birth now \<longrightarrow>
                        (\<forall>e. calculate_checksum U (take 17 t) = Inl e \<longrightarrow>
                           V = Inr (False, InternalError))
                      \<and> (\<forall>c. calculate_checksum U (take 17 t) = Inr c \<longrightarrow>
                           (c \<noteq> t ! 17 \<longrightarrow> V = Inr (False, ChecksumError c (t ! 17)))
                         \<and> (c = t ! 17 \<longrightarrow> V = Inr (True, IdValid)))))))))
    \<and> kind_of LengthError = KLength
    \<and> kind_of PrefixFormatError = KFormat
    \<and> kind_of LastCharFormatError = KFormat
    \<and> kind_of (AddressError a) = KAddress
    \<and> kind_of (InvalidDateError b) = KDate
    \<and> kind_of (FutureDateError b) = KDate
    \<and> kind_of InternalError = KInternal
    \<and> kind_of (ChecksumError x y) = KChecksum
    \<and> kind_of IdValid = KSuccess
    \<and> (\<not> isspace U (of_char CHR ''x'') \<and> \<not> isspace U (of_char CHR ''X'')
        \<and> toupper U (of_char CHR ''x'') = [of_char CHR ''X'']
        \<and> toupper U (of_char CHR ''X'') = [of_char CHR ''X''] \<longrightarrow>
        validate U self now (p @ [of_char CHR ''x''])
        = validate U self now (p @ [of_char CHR ''X'']))"
proof -
  have len: "length t \<noteq> 18 \<longrightarrow> V = Inr (False, LengthError)"
    using assms by (simp add: validate_reject_length)
  have chk: "length t = 18 \<longrightarrow>
         (\<not> str_isdigit U (take 17 t) \<longrightarrow> V = Inr (False, PrefixFormatError))
       \<and> (str_isdigit U (take 17 t) \<longrightarrow>
            (\<not> (isdigit U (t ! 17) \<or> t ! 17 = of_char CHR ''X'') \<longrightarrow>
               V = Inr (False, LastCharFormatError))
          \<and> (isdigit U (t ! 17) \<or> t ! 17 = of_char CHR ''X'' \<longrightarrow>
               (area_codes self (take 6 t) = None \<longrightarrow>
                  V = Inr (False, AddressError (take 6 t)))
             \<and> (area_codes self (take 6 t) \<noteq> None \<longrightarrow>
                  (\<forall>e. strptime U (take 8 (drop 6 t)) = Inl e \<longrightarrow>
                     V = Inr (False, InvalidDateError (take 8 (drop 6 t))))
                \<and> (\<forall>birth. strptime U (take 8 (drop 6 t)) = Inr birth \<longrightarrow>
                     (dt_gt birth now \<longrightarrow>
                        V = Inr (False, FutureDateError (take 8 (drop 6 t))))
                   \<and> (\<not> dt_gt birth now \<longrightarrow>
                        (\<forall>e. calculate_checksum U (take 17 t) = Inl e \<longrightarrow>
                           V = Inr (False, InternalError))
                      \<and> (\<forall>c. calculate_checksum U (take 17 t) = Inr c \<longrightarrow>
                           (c \<noteq> t ! 17 \<longrightarrow> V = Inr (False, ChecksumError c (t ! 17)))
                         \<and> (c = t ! 17 \<longrightarrow> V = Inr (True, IdValid))))))))"
  proof
    assume "length t = 18"
    then have "length (normalize U s) = 18"
      using assms(1) by simp
    from validate_18 [OF this, of self now] show
      "(\<not> str_isdigit U (take 17 t) \<longrightarrow> V = Inr (False, PrefixFormatError))
       \<and> (str_isdigit U (take 17 t) \<longrightarrow>
            (\<not> (isdigit U (t ! 17) \<or> t ! 17 = of_char CHR ''X'') \<longrightarrow>
               V = Inr (False, LastCharFormatError))
          \<and> (isdigit U (t ! 17) \<or> t ! 17 = of_char CHR ''X'' \<longrightarrow>
               (area_codes self (take 6 t) = None \<longrightarrow>
                  V = Inr (False, AddressError (take 6 t)))
             \<and> (area_codes self (take 6 t) \<noteq> None \<longrightarrow>
                  (\<forall>e. strptime U (take 8 (drop 6 t)) = Inl e \<longrightarrow>
                     V = Inr (False, InvalidDateError (take 8 (drop 6 t))))
                \<and> (\<forall>birth. strptime U (take 8 (drop 6 t)) = Inr birth \<longrightarrow>
                     (dt_gt birth now \<longrightarrow>
                        V = Inr (False, FutureDateError (take 8 (drop 6 t))))
                   \<and> (\<not> dt_gt birth now \<longrightarrow>
                        (\<forall>e. calculate_checksum U (take 17 t) = Inl e \<longrightarrow>
                           V = Inr (False, InternalError))
                      \<and> (\<forall>c. calculate_checksum U (take 17 t) = Inr c \<longrightarrow>
                           (c \<noteq> t ! 17 \<longrightarrow> V = Inr (False, ChecksumError c (t ! 17)))
                         \<and> (c = t ! 17 \<longrightarrow> V = Inr (True, IdValid))))))))"
      unfolding assms(2) assms(1) Let_def by auto
  qed
  have x: "\<not> isspace U (of_char CHR ''x'') \<and> \<not> isspace U (of_char CHR ''X'')
        \<and> toupper U (of_char CHR ''x'') = [of_char CHR ''X'']
        \<and> toupper U (of_char CHR ''X'') = [of_char CHR ''X''] \<longrightarrow>
        validate U self now (p @ [of_char CHR ''x''])
        = validate U self now (p @ [of_char CHR ''X''])"
  proof
    assume a: "\<not> isspace U (of_char CHR ''x'') \<and> \<not> isspace U (of_char CHR ''X'')
        \<and> toupper U (of_char CHR ''x'') = [of_char CHR ''X'']
        \<and> toupper U (of_char CHR ''X'') = [of_char CHR ''X'']"
    then have "normalize U (p @ [of_char CHR ''x'']) = normalize U (p @ [of_char CHR ''X''])"
      by (simp add: normalize_snoc_nonspace)
    then show "validate U self now (p @ [of_char CHR ''x''])
        = validate U self now (p @ [of_char CHR ''X''])"
      by (simp only: validate_def)
  qed
  from len chk x show ?thesis
    by simp
qed

text \<open>The theorem at a valid number that is followed by a blank: every check passes on
  the normalised string.\<close>

theorem validate_check_order_witness:
  "normalize latin1 (of_ascii ''11010519491231002X '') = of_ascii ''11010519491231002X''
   \<and> length (of_ascii ''11010519491231002X'') = 18
   \<and> str_isdigit latin1 (take 17 (of_ascii ''11010519491231002X''))
   \<and> of_ascii ''11010519491231002X'' ! 17 = of_char CHR ''X''
   \<and> area_codes sample_toolkit (take 6 (of_ascii ''11010519491231002X'')) \<noteq> None
   \<and> strptime latin1 (take 8 (drop 6 (of_ascii ''11010519491231002X'')))
       = Inr \<lparr> year = 1949, month = 12, day = 31,
               hour = 0, minute = 0, second = 0, microsecond = 0 \<rparr>
   \<and> \<not> dt_gt \<lparr> year = 1949, month = 12, day = 31,
                hour = 0, minute = 0, second = 0, microsecond = 0 \<rparr> sample_now
   \<and> calculate_checksum latin1 (take 17 (of_ascii ''11010519491231002X''))
       = Inr (of_char CHR ''X'')
   \<and> validate latin1 sample_toolkit sample_now (of_ascii ''11010519491231002X '')
       = Inr (True, IdValid)"
proof -
  have n: "of_ascii ''11010519491231002X'' = normalize latin1 (of_ascii ''11010519491231002X '')"
    by (simp add: normalize_def str_strip_def str_upper_def latin1_def of_ascii_def)
  have l: "length (of_ascii ''11010519491231002X'') = 18"
    by (simp add: of_ascii_def)
  have d: "str_isdigit latin1 (take 17 (of_ascii ''11010519491231002X''))"
    by (simp add: str_isdigit_def latin1_def of_ascii_def)
  have x: "of_ascii ''11010519491231002X'' ! 17 = of_char CHR ''X''"
    by (simp add: of_ascii_def)
  have a: "area_codes sample_toolkit (take 6 (of_ascii ''11010519491231002X'')) \<noteq> None"
    by (simp add: sample_toolkit_def sample_tree_def of_ascii_def)
  have b: "strptime latin1 (take 8 (drop 6 (of_ascii ''11010519491231002X'')))
       = Inr \<lparr> year = 1949, month = 12, day = 31,
               hour = 0, minute = 0, second = 0, microsecond = 0 \<rparr>"
    by (simp add: eval_defs)
  have f: "\<not> dt_gt \<lparr> year = 1949, month = 12, day = 31,
                hour = 0, minute = 0, second = 0, microsecond = 0 \<rparr> sample_now"
    by (simp add: dt_gt_def dt_fields_def sample_now_def)
  have c: "calculate_checksum latin1 (take 17 (of_ascii ''11010519491231002X''))
       = Inr (of_char CHR ''X'')"
    by (simp add: eval_defs)
  from validate_check_order [OF n refl, of sample_toolkit sample_now] l d x a b f c
  have "validate latin1 sample_toolkit sample_now (of_ascii ''11010519491231002X '')
       = Inr (True, IdValid)"
    by simp
  with n l d x a b f c show ?thesis
    by simp
qed

lemma checksum_map_chars: "k < 11 \<Longrightarrow> ascii_digit (CHECKSUM_MAP ! k) \<or> CHECKSUM_MAP ! k = 88"
proof -
  assume "k < 11"
  then have "k < length CHECKSUM_MAP"
    by (simp add: CHECKSUM_MAP_def of_ascii_def)
  then have "CHECKSUM_MAP ! k \<in> set CHECKSUM_MAP"
    by (rule nth_mem)
  moreover have "\<forall>c \<in> set CHECKSUM_MAP. ascii_digit c \<or> c = 88"
    by (simp add: CHECKSUM_MAP_def of_ascii_def ascii_digit_def)
  ultimately show ?thesis
    by blast
qed

lemma calculate_checksum_char:
  "calculate_checksum U p = Inr c \<Longrightarrow> ascii_digit c \<or> c = 88"
  by (auto simp: calculate_checksum_def split: if_splits sum.splits intro!: checksum_map_chars)

lemma calculate_checksum_ascii_ex:
  assumes "ascii_ok U" and "length p = 17" and "list_all ascii_digit p"
  shows "\<exists>c. calculate_checksum U p = Inr c"
  using calculate_checksum_ascii [OF assms] by simp

text \<open>A 17-digit prefix that passes the region and date checks, followed by its check
  character, is accepted.\<close>

lemma validate_prefix_with_checksum:
  assumes U: "ascii_ok U" and len: "length p = 17" and dig: "list_all ascii_digit p"
    and area: "area_codes self (take 6 p) \<noteq> None"
    and date: "strptime U (take 8 (drop 6 p)) = Inr birth" and past: "\<not> dt_gt birth now"
    and c: "calculate_checksum U p = Inr c"
  shows "validate U self now (p @ [c]) = Inr (True, IdValid)"
proof -
  from c have cc: "ascii_digit c \<or> c = 88"
    by (rule calculate_checksum_char)
  with dig have "\<forall>x \<in> set (p @ [c]). ascii_digit x \<or> x = 88"
    by (auto simp: list_all_iff)
  with U have n: "normalize U (p @ [c]) = p @ [c]"
    by (intro normalize_id_chars) auto
  have d: "str_isdigit U p"
    using U dig len by (intro str_isdigit_ascii) auto
  from cc U have l: "isdigit U c \<or> c = 88"
    by (auto dest: ascii_okD(1))
  from len n have "length (normalize U (p @ [c])) = 18"
    by simp
  from validate_18 [OF this, of self now] show ?thesis
    using len n d l area date past c by (simp add: nth_append)
qed

section \<open>C3: a prefix with its computed check character is accepted\<close>

text \<open>
  Claim C3. For every string \<open>p\<close> of 17 digits whose first six characters are a key of the
  region table and whose characters 6 to 13 are a calendar date that is not after the
  current time, \<^verbatim>\<open>_calculate_checksum(p)\<close> returns a character \<open>c\<close> and \<^verbatim>\<open>validate(p + c)\<close>
  returns true with the success reason.
\<close>

theorem checksum_roundtrip:
  assumes "ascii_ok U" and "length p = 17" and "list_all ascii_digit p"
    and "area_codes self (take 6 p) \<noteq> None"
    and "strptime U (take 8 (drop 6 p)) = Inr birth" and "\<not> dt_gt birth now"
  shows "\<exists>c. calculate_checksum U p = Inr c \<and> validate U self now (p @ [c]) = Inr (True, IdValid)"
proof -
  from assms(1-3) obtain c where "calculate_checksum U p = Inr c"
    using calculate_checksum_ascii_ex by blast
  with assms show ?thesis
    by (auto intro: validate_prefix_with_checksum)
qed

text \<open>The theorem at the prefix 11010519491231002 in the sample table: the check
  character is X and the number 11010519491231002X is accepted.\<close>

theorem checksum_roundtrip_witness:
  "ascii_ok latin1
   \<and> length (of_ascii ''11010519491231002'') = 17
   \<and> list_all ascii_digit (of_ascii ''11010519491231002'')
   \<and> area_codes sample_toolkit (take 6 (of_ascii ''11010519491231002'')) \<noteq> None
   \<and> strptime latin1 (take 8 (drop 6 (of_ascii ''11010519491231002'')))
       = Inr \<lparr> year = 1949, month = 12, day = 31,
               hour = 0, minute = 0, second = 0, microsecond = 0 \<rparr>
   \<and> \<not> dt_gt \<lparr> year = 1949, month = 12, day = 31,
                hour = 0, minute = 0, second = 0, microsecond = 0 \<rparr> sample_now
   \<and> (\<exists>c. calculate_checksum latin1 (of_ascii ''11010519491231002'') = Inr c
          \<and> validate latin1 sample_toolkit sample_now (of_ascii ''11010519491231002'' @ [c])
              = Inr (True, IdValid))"
proof -
  have l: "length (of_ascii ''11010519491231002'') = 17"
    by (simp add: of_ascii_def)
  have d: "list_all ascii_digit (of_ascii ''11010519491231002'')"
    by (simp add: of_ascii_def ascii_digit_def)
  have a: "area_codes sample_toolkit (take 6 (of_ascii ''11010519491231002'')) \<noteq> None"
    by (simp add: sample_toolkit_def sample_tree_def of_ascii_def)
  have b: "strptime latin1 (take 8 (drop 6 (of_ascii ''11010519491231002'')))
       = Inr \<lparr> year = 1949, month = 12, day = 31,
               hour = 0, minute = 0, second = 0, microsecond = 0 \<rparr>"
    by (simp add: eval_defs)
  have f: "\<not> dt_gt \<lparr> year = 1949, month = 12, day = 31,
                hour = 0, minute = 0, second = 0, microsecond = 0 \<rparr> sample_now"
    by (simp add: dt_gt_def dt_fields_def sample_now_def)
  from checksum_roundtrip [OF ascii_ok_latin1 l d a b f] ascii_ok_latin1 l d a b f
  show ?thesis
    by blast
qed

subsection \<open>Normalisation is idempotent\<close>

lemma dropWhile_rev_dropWhile_hd:
  "rev (dropWhile P (rev (dropWhile P s))) \<noteq> [] \<Longrightarrow>
   \<not> P (hd (rev (dropWhile P (rev (dropWhile P s)))))"
proof -
  assume a: "rev (dropWhile P (rev (dropWhile P s))) \<noteq> []"
  let ?t = "dropWhile P s"
  have t: "?t \<noteq> []"
  proof
    assume "?t = []"
    with a show False
      by simp
  qed
  then have h: "\<not> P (hd ?t)"
    by (rule hd_dropWhile)
  have "hd (rev (dropWhile P (rev ?t))) = hd ?t"
  proof -
    obtain x r where xr: "?t = x # r"
      using t by (cases ?t) auto
    with h have nx: "\<not> P x"
      by simp
    have "dropWhile P (rev r @ [x]) = dropWhile P (rev r) @ [x]"
      using nx by (simp add: dropWhile_append)
    then show ?thesis
      using xr by simp
  qed
  with h show ?thesis
    by simp
qed

lemma str_strip_ends:
  assumes "str_strip U s \<noteq> []"
  shows "\<not> isspace U (hd (str_strip U s))" and "\<not> isspace U (last (str_strip U s))"
proof -
  show "\<not> isspace U (hd (str_strip U s))"
    using assms unfolding str_strip_def by (rule dropWhile_rev_dropWhile_hd)
  have "dropWhile (isspace U) (rev (dropWhile (isspace U) s)) \<noteq> []"
    using assms by (simp add: str_strip_def)
  then have "\<not> isspace U (hd (dropWhile (isspace U) (rev (dropWhile (isspace U) s))))"
    by (rule hd_dropWhile)
  then show "\<not> isspace U (last (str_strip U s))"
    by (simp add: str_strip_def last_rev)
qed

lemma str_upper_append: "str_upper U (a @ b) = str_upper U a @ str_upper U b"
  by (simp add: str_upper_def)

lemma str_upper_idem: "case_ok U \<Longrightarrow> str_upper U (str_upper U s) = str_upper U s"
proof (induction s)
  case Nil
  show ?case by (simp add: str_upper_def)
next
  case (Cons x r)
  have "str_upper U (x # r) = toupper U x @ str_upper U r"
    by (simp add: str_upper_def)
  moreover have "str_upper U (toupper U x) = toupper U x"
    using Cons.prems by (simp add: case_ok_def)
  ultimately show ?case
    using Cons by (simp add: str_upper_append)
qed

lemma str_upper_ends:
  assumes "case_ok U" and "s \<noteq> []" and "\<not> isspace U (hd s)" and "\<not> isspace U (last s)"
  shows "str_upper U s \<noteq> []" and "\<not> isspace U (hd (str_upper U s))"
    and "\<not> isspace U (last (str_upper U s))"
proof -
  obtain x r where xr: "s = x # r"
    using assms(2) by (cases s) auto
  with assms(1,3) have x: "toupper U x \<noteq> []" "\<not> isspace U (hd (toupper U x))"
    by (simp_all add: case_ok_def)
  have ux: "str_upper U s = toupper U x @ str_upper U r"
    using xr by (simp add: str_upper_def)
  with x show "str_upper U s \<noteq> []" and "\<not> isspace U (hd (str_upper U s))"
    by simp_all
  obtain q y where qy: "s = q @ [y]"
    using assms(2) by (cases s rule: rev_cases) auto
  with assms(1,4) have y: "toupper U y \<noteq> []" "\<not> isspace U (last (toupper U y))"
    by (simp_all add: case_ok_def)
  have "str_upper U s = str_upper U q @ toupper U y"
    using qy by (simp add: str_upper_def)
  with y show "\<not> isspace U (last (str_upper U s))"
    by simp
qed

lemma normalize_idem:
  assumes "case_ok U"
  shows "normalize U (normalize U s) = normalize U s"
proof (cases "str_strip U s = []")
  case True
  then have "normalize U s = []"
    by (simp add: normalize_def str_upper_def)
  moreover have "normalize U [] = []"
    by (simp add: normalize_def str_upper_def str_strip_def)
  ultimately show ?thesis
    by simp
next
  case False
  let ?t = "str_strip U s"
  from False have e: "\<not> isspace U (hd ?t)" "\<not> isspace U (last ?t)"
    by (rule str_strip_ends)+
  note u = str_upper_ends [OF assms False e]
  from u have "str_strip U (str_upper U ?t) = str_upper U ?t"
    by (rule str_strip_id)
  with assms show ?thesis
    by (simp add: normalize_def str_upper_idem)
qed

lemma case_ok_latin1: "case_ok latin1"
  unfolding case_ok_def
proof (intro conjI allI impI)
  fix c
  show "str_upper latin1 (toupper latin1 c) = toupper latin1 c"
    by (simp add: latin1_def str_upper_def) arith
next
  fix c
  assume "\<not> isspace latin1 c"
  then show "toupper latin1 c \<noteq> []" and "\<not> isspace latin1 (hd (toupper latin1 c))"
    and "\<not> isspace latin1 (last (toupper latin1 c))"
    by (auto simp: latin1_def)
qed

section \<open>C9: validate normalises its argument\<close>

text \<open>
  Claim C9. For every input string \<open>s\<close>, \<^verbatim>\<open>validate(s)\<close> equals
  \<^verbatim>\<open>validate(s.strip().upper())\<close>: the function strips surrounding white space and
  upper-cases the string before it checks anything, so a valid number surrounded by
  white space, or ending in a lower-case x, is accepted.
\<close>

theorem validate_normalizes:
  assumes "case_ok U"
  shows "validate U self now (normalize U s) = validate U self now s"
  by (simp add: validate_def normalize_idem [OF assms])

text \<open>The theorem at a valid number written with a leading blank, a lower-case x and a
  trailing blank.\<close>

theorem validate_normalizes_witness:
  "case_ok latin1
   \<and> normalize latin1 (of_ascii '' 11010519491231002x '') = of_ascii ''11010519491231002X''
   \<and> validate latin1 sample_toolkit sample_now (of_ascii '' 11010519491231002x '')
       = Inr (True, IdValid)"
proof -
  have n: "normalize latin1 (of_ascii '' 11010519491231002x '') = of_ascii ''11010519491231002X''"
    by (simp add: normalize_def str_strip_def str_upper_def latin1_def of_ascii_def)
  have v: "validate latin1 sample_toolkit sample_now (of_ascii ''11010519491231002X'')
       = Inr (True, IdValid)"
    by (simp add: eval_defs)
  from validate_normalizes [OF case_ok_latin1, of sample_toolkit sample_now
      "of_ascii '' 11010519491231002x ''"] n v case_ok_latin1
  show ?thesis
    by simp
qed

subsection \<open>Where the check character computation can raise\<close>

lemma sum_products_raises:
  "sum_products U tot ps = Inl e \<Longrightarrow> \<exists>c \<in> set (map fst ps). py_int U [c] = Inl ValueError"
proof (induction ps arbitrary: tot)
  case Nil
  then show ?case by simp
next
  case (Cons a ps)
  obtain digit weight where a: "a = (digit, weight)"
    by (cases a)
  show ?case
  proof (cases "py_int U [digit]")
    case (Inl e')
    then have "py_int U [digit] = Inl ValueError"
      by (auto dest: py_int_exn)
    with a show ?thesis by simp
  next
    case (Inr d)
    with Cons.prems a have "sum_products U (tot + d * weight) ps = Inl e"
      by simp
    from Cons.IH [OF this] show ?thesis by auto
  qed
qed

lemma calculate_checksum_raises:
  assumes "calculate_checksum U p = Inl e" and "length p = 17" and "str_isdigit U p"
  shows "\<exists>c \<in> set p. isdigit U c \<and> py_int U [c] = Inl ValueError"
proof -
  from assms obtain e' where "sum_products U 0 (zip p WEIGHTS) = Inl e'"
    by (auto simp: calculate_checksum_def split: sum.splits)
  then obtain c where "c \<in> set (map fst (zip p WEIGHTS))" and c: "py_int U [c] = Inl ValueError"
    by (blast dest: sum_products_raises)
  then have "c \<in> set p"
    by (auto dest: set_zip_leftD)
  moreover from this assms(3) have "isdigit U c"
    by (simp add: str_isdigit_def list_all_iff)
  ultimately show ?thesis
    using c by blast
qed

lemma validate_internal_error:
  assumes "validate U self now s = Inr (b, InternalError)"
  shows "length (normalize U s) = 18 \<and> str_isdigit U (take 17 (normalize U s))
         \<and> (\<exists>e. calculate_checksum U (take 17 (normalize U s)) = Inl e)"
proof -
  have l: "length (normalize U s) = 18"
  proof (rule ccontr)
    assume "length (normalize U s) \<noteq> 18"
    from validate_reject_length [OF this, of self now] assms show False
      by simp
  qed
  from validate_18 [OF l, of self now] assms
  have "str_isdigit U (take 17 (normalize U s))
        \<and> (\<exists>e. calculate_checksum U (take 17 (normalize U s)) = Inl e)"
    by (simp add: Let_def split: if_splits sum.splits)
  with l show ?thesis by simp
qed

section \<open>C10: the internal-error branch of validate\<close>

text \<open>
  Claim C10 says that the branch of \<^verbatim>\<open>validate\<close> that returns the internal-error reason
  cannot be reached, because the prefix has passed \<^verbatim>\<open>isdigit\<close> before
  \<^verbatim>\<open>_calculate_checksum\<close> is called. \<^verbatim>\<open>str.isdigit\<close> accepts characters that \<^verbatim>\<open>int\<close>
  rejects: with the superscript two (U+00B2) as the 17th character the prefix passes
  the digit check, \<^verbatim>\<open>int\<close> raises \<^verbatim>\<open>ValueError\<close> inside \<^verbatim>\<open>_calculate_checksum\<close>, and
  \<^verbatim>\<open>validate\<close> returns the internal-error reason.
\<close>

theorem validate_reaches_internal_error:
  "str_isdigit latin1 (of_ascii ''1101051949123100'' @ [178])
   \<and> calculate_checksum latin1 (of_ascii ''1101051949123100'' @ [178]) = Inl ValueError
   \<and> validate latin1 sample_toolkit sample_now
        (of_ascii ''1101051949123100'' @ [178] @ of_ascii ''X'')
       = Inr (False, InternalError)"
  by (simp add: eval_defs)

text \<open>
  Claim C10, amended. When \<^verbatim>\<open>validate\<close> returns the internal-error reason, the
  normalised input has 18 characters and its first 17 have passed \<^verbatim>\<open>isdigit\<close> (the
  17-digit guard of \<^verbatim>\<open>_calculate_checksum\<close> did not raise), and one of these characters
  is a digit on which \<^verbatim>\<open>int\<close> raises. So the branch is unreachable whenever \<^verbatim>\<open>int\<close>
  converts every character of the prefix, in particular for ASCII digits.
\<close>

theorem internal_error_only_from_int:
  "(validate U self now s = Inr (b, InternalError) \<longrightarrow>
      length (normalize U s) = 18
      \<and> str_isdigit U (take 17 (normalize U s))
      \<and> (\<exists>c \<in> set (take 17 (normalize U s)). isdigit U c \<and> py_int U [c] = Inl ValueError))
   \<and> ((\<forall>c \<in> set (take 17 (normalize U s)). \<exists>n. py_int U [c] = Inr n) \<longrightarrow>
        validate U self now s \<noteq> Inr (b, InternalError))
   \<and> (list_all ascii_digit (take 17 (normalize U s)) \<longrightarrow>
        validate U self now s \<noteq> Inr (b, InternalError))"
proof -
  have 1: "validate U self now s = Inr (b, InternalError) \<longrightarrow>
      length (normalize U s) = 18
      \<and> str_isdigit U (take 17 (normalize U s))
      \<and> (\<exists>c \<in> set (take 17 (normalize U s)). isdigit U c \<and> py_int U [c] = Inl ValueError)"
  proof
    assume "validate U self now s = Inr (b, InternalError)"
    from validate_internal_error [OF this] obtain e where
      l: "length (normalize U s) = 18" and d: "str_isdigit U (take 17 (normalize U s))"
      and e: "calculate_checksum U (take 17 (normalize U s)) = Inl e"
      by blast
    from l have "length (take 17 (normalize U s)) = 17"
      by simp
    from calculate_checksum_raises [OF e this d] l d
    show "length (normalize U s) = 18
      \<and> str_isdigit U (take 17 (normalize U s))
      \<and> (\<exists>c \<in> set (take 17 (normalize U s)). isdigit U c \<and> py_int U [c] = Inl ValueError)"
      by blast
  qed
  from 1 have 2: "(\<forall>c \<in> set (take 17 (normalize U s)). \<exists>n. py_int U [c] = Inr n) \<longrightarrow>
        validate U self now s \<noteq> Inr (b, InternalError)"
    by fastforce
  have "list_all ascii_digit (take 17 (normalize U s)) \<longrightarrow>
        (\<forall>c \<in> set (take 17 (normalize U s)). \<exists>n. py_int U [c] = Inr n)"
    by (auto simp: list_all_iff py_int_ascii_digit)
  with 1 2 show ?thesis
    by blast
qed

text \<open>The theorem at the number with the superscript two, where the branch is taken,
  and at a number of ASCII digits, where it is not.\<close>

theorem internal_error_only_from_int_witness:
  "validate latin1 sample_toolkit sample_now
        (of_ascii ''1101051949123100'' @ [179] @ of_ascii ''X'') = Inr (False, InternalError)
   \<and> (\<exists>c \<in> set (take 17 (normalize latin1
                    (of_ascii ''1101051949123100'' @ [179] @ of_ascii ''X''))).
          isdigit latin1 c \<and> py_int latin1 [c] = Inl ValueError)
   \<and> list_all ascii_digit (take 17 (normalize latin1 (of_ascii ''110105194912310011'')))
   \<and> validate latin1 sample_toolkit sample_now (of_ascii ''110105194912310011'')
       \<noteq> Inr (False, InternalError)"
proof -
  have v: "validate latin1 sample_toolkit sample_now
        (of_ascii ''1101051949123100'' @ [179] @ of_ascii ''X'') = Inr (False, InternalError)"
    by (simp add: eval_defs)
  have a: "list_all ascii_digit (take 17 (normalize latin1 (of_ascii ''110105194912310011'')))"
    by (simp add: normalize_def str_strip_def str_upper_def latin1_def of_ascii_def ascii_digit_def)
  from internal_error_only_from_int [of latin1 sample_toolkit sample_now
      "of_ascii ''1101051949123100'' @ [179] @ of_ascii ''X''" False] v
  have "\<exists>c \<in> set (take 17 (normalize latin1
                    (of_ascii ''1101051949123100'' @ [179] @ of_ascii ''X''))).
          isdigit latin1 c \<and> py_int latin1 [c] = Inl ValueError"
    by blast
  moreover from internal_error_only_from_int [of latin1 sample_toolkit sample_now
      "of_ascii ''110105194912310011''" False] a
  have "validate latin1 sample_toolkit sample_now (of_ascii ''110105194912310011'')
       \<noteq> Inr (False, InternalError)"
    by blast
  ultimately show ?thesis
    using v a by blast
qed

section \<open>C7: failures are returned as data\<close>

text \<open>
  Claim C7. \<^verbatim>\<open>validate\<close> returns a boolean and a reason for every input string and never
  raises; \<^verbatim>\<open>validate("123")\<close> is a length error; and \<^verbatim>\<open>parse\<close> returns either the parsed
  identity or the invalid value with the reason, and never raises. The part on
  \<^verbatim>\<open>validate\<close> holds (\<open>validate_total\<close>, \<open>validate_reject_length\<close>). \<^verbatim>\<open>parse\<close> raises: it
  slices the fields from its argument as passed, while \<^verbatim>\<open>validate\<close> has accepted the
  stripped and upper-cased string. On a valid number with a leading blank the slice for
  the birth date is 51949123, and \<^verbatim>\<open>strptime\<close> raises \<^verbatim>\<open>ValueError\<close> outside any \<^verbatim>\<open>try\<close>.
\<close>

theorem parse_raises_on_leading_blank:
  "validate latin1 sample_toolkit sample_now (of_ascii ''123'') = Inr (False, LengthError)
   \<and> validate latin1 sample_toolkit sample_now (of_ascii '' 11010519491231002X'')
       = Inr (True, IdValid)
   \<and> take 8 (drop 6 (of_ascii '' 11010519491231002X'')) = of_ascii ''51949123''
   \<and> strptime latin1 (of_ascii ''51949123'') = Inl ValueError
   \<and> parse latin1 sample_toolkit sample_now sample_today (of_ascii '' 11010519491231002X'')
       = Inl ValueError"
  by (simp add: parse_def eval_defs)

subsection \<open>A toolkit with an empty region table\<close>

lemma validate_empty_table:
  assumes "area_codes self = Map.empty"
  shows "\<exists>r. validate U self now s = Inr (False, r)"
proof (cases "length (normalize U s) = 18")
  case False
  then show ?thesis
    by (simp add: validate_reject_length)
next
  case True
  from validate_18 [OF True, of self now] assms show ?thesis
    by (simp add: Let_def)
qed

lemma parse_empty_table:
  assumes "area_codes self = Map.empty"
  shows "\<exists>r. parse U self now today s = Inr (Invalid r)"
proof -
  from validate_empty_table [OF assms] obtain r where "validate U self now s = Inr (False, r)"
    by blast
  then show ?thesis
    by (simp add: parse_def)
qed

lemma guess_empty_table:
  "area_codes self = Map.empty \<Longrightarrow> guess U self a d g = Inr (Inl (BadAreaCode a))"
  by (simp add: guess_def)

section \<open>C8: a region file that cannot be read\<close>

text \<open>
  Claim C8 says that construction fails when the region file cannot be read or parsed,
  so that no toolkit with an empty region table is ever used. \<^verbatim>\<open>__init__\<close> catches
  \<^verbatim>\<open>FileNotFoundError\<close>, prints a message and sets the table to the empty dictionary:
  construction succeeds, and \<^verbatim>\<open>validate\<close> then runs against the empty table.
\<close>

theorem init_succeeds_without_file:
  "init (Inl FileNotFoundError) = Inr \<lparr> area_codes = Map.empty \<rparr>
   \<and> validate latin1 \<lparr> area_codes = Map.empty \<rparr> sample_now (of_ascii ''11010519491231002X'')
       = Inr (False, AddressError (of_ascii ''110105''))"
  by (simp add: init_def eval_defs)

text \<open>
  Claim C8, amended. When the region file is not found, construction succeeds with an
  empty region table; on that toolkit \<^verbatim>\<open>validate\<close> rejects every input, \<^verbatim>\<open>parse\<close> returns
  the invalid value for every input and \<^verbatim>\<open>guess\<close> returns its region-code error for
  all arguments. Any other exception raised while the file is opened and parsed leaves
  the constructor, and no toolkit is produced.
\<close>

theorem init_error_handling:
  "init (Inl FileNotFoundError) = Inr \<lparr> area_codes = Map.empty \<rparr>
   \<and> (\<exists>r. validate U \<lparr> area_codes = Map.empty \<rparr> now s = Inr (False, r))
   \<and> (\<exists>r. parse U \<lparr> area_codes = Map.empty \<rparr> now today s = Inr (Invalid r))
   \<and> guess U \<lparr> area_codes = Map.empty \<rparr> a d g = Inr (Inl (BadAreaCode a))
   \<and> (e \<noteq> FileNotFoundError \<longrightarrow> init (Inl e) = Inl e)"
proof -
  have "area_codes \<lparr> area_codes = Map.empty \<rparr> = Map.empty"
    by simp
  from validate_empty_table [OF this] parse_empty_table [OF this] guess_empty_table [OF this]
  show ?thesis
    by (simp add: init_def)
qed

text \<open>The theorem at a file that exists and cannot be read.\<close>

theorem init_error_handling_witness:
  "PermissionError \<noteq> FileNotFoundError \<and> init (Inl PermissionError) = Inl PermissionError"
  using init_error_handling [of latin1 sample_now "[]" sample_today "[]" "[]" "[]" PermissionError]
  by simp

subsection \<open>Sequence codes\<close>

lemma dec_digits_small: "i < 10 \<Longrightarrow> dec_digits i = [48 + i]"
  by (simp add: dec_digits.simps [of i])

lemma dec_digits_step: "10 \<le> i \<Longrightarrow> dec_digits i = dec_digits (i div 10) @ [48 + i mod 10]"
  by (simp add: dec_digits.simps [of i])

lemma fmt03_small:
  assumes "i < 1000"
  shows "fmt03 i = [48 + i div 100, 48 + i div 10 mod 10, 48 + i mod 10]"
proof -
  have r: "replicate 2 (48::nat) = [48, 48]" "replicate (Suc 0) (48::nat) = [48]"
    by (simp_all add: numeral_2_eq_2)
  consider "i < 10" | "10 \<le> i" "i < 100" | "100 \<le> i"
    by linarith
  then show ?thesis
  proof cases
    case 1
    then show ?thesis
      by (simp add: fmt03_def dec_digits_small r)
  next
    case 2
    then have "i div 10 < 10"
      by simp
    with 2 have "dec_digits i = [48 + i div 10, 48 + i mod 10]"
      by (simp add: dec_digits_step dec_digits_small)
    with 2 show ?thesis
      by (simp add: fmt03_def r)
  next
    case 3
    with assms have a: "i div 10 div 10 < 10" "10 \<le> i div 10" "10 \<le> i"
      by simp_all
    then have "dec_digits i = [48 + i div 10 div 10, 48 + i div 10 mod 10, 48 + i mod 10]"
      by (simp add: dec_digits_step dec_digits_small)
    moreover have "i div 10 div 10 = i div 100"
      by (simp add: div_mult2_eq [symmetric])
    ultimately show ?thesis
      by (simp add: fmt03_def)
  qed
qed

lemma digit_bounds:
  assumes "i < 1000"
  shows "ascii_digit (48 + i div 100)" and "ascii_digit (48 + i div 10 mod 10)"
    and "ascii_digit (48 + i mod 10)"
proof -
  from assms have "i div 100 \<le> 9"
    by simp
  moreover have "i div 10 mod 10 \<le> 9" and "i mod 10 \<le> 9"
    by presburger+
  ultimately show "ascii_digit (48 + i div 100)" and "ascii_digit (48 + i div 10 mod 10)"
    and "ascii_digit (48 + i mod 10)"
    by (simp_all add: ascii_digit_def)
qed

lemma fmt03_digits:
  assumes "i < 1000"
  shows "length (fmt03 i) = 3" and "list_all ascii_digit (fmt03 i)"
  using digit_bounds [OF assms] by (simp_all add: fmt03_small [OF assms])

lemma long_from_string_3_digits:
  assumes "c_isdigit a" and "c_isdigit b" and "c_isdigit c"
  shows "long_from_string [a, b, c] = Inr (int ((a - 48) * 100 + (b - 48) * 10 + (c - 48)))"
proof -
  from assms have ns: "\<not> c_isspace a" and sg: "a \<noteq> 43" "a \<noteq> 45"
    and us: "a \<noteq> 95" "b \<noteq> 95" "c \<noteq> 95"
    by (auto simp: c_isdigit_def c_isspace_def)
  have t1: "dropWhile c_isspace [a, b, c] = [a, b, c]"
    using ns by simp
  have body: "takeWhile (\<lambda>x. c_isdigit x \<or> x = 95) [a, b, c] = [a, b, c]"
    using assms by simp
  have rest: "dropWhile (\<lambda>x. c_isdigit x \<or> x = 95) [a, b, c] = []"
    using assms by simp
  have val: "foldl (\<lambda>n x. 10 * n + (x - 48)) 0 (filter c_isdigit [a, b, c])
             = (a - 48) * 100 + (b - 48) * 10 + (c - 48)"
    using assms by simp
  show ?thesis
    unfolding long_from_string_def Let_def t1
    using assms sg us by (simp add: body rest val)
qed

lemma py_int_3_digits:
  assumes "ascii_digit a" and "ascii_digit b" and "ascii_digit c"
  shows "py_int U [a, b, c] = Inr (int ((a - 48) * 100 + (b - 48) * 10 + (c - 48)))"
proof -
  from assms have "map (to_ascii U) [a, b, c] = [a, b, c]"
    by (simp add: to_ascii_def ascii_digit_def)
  moreover from assms have "c_isdigit a" "c_isdigit b" "c_isdigit c"
    by (simp_all add: c_isdigit_def ascii_digit_def)
  ultimately show ?thesis
    by (simp add: py_int_def long_from_string_3_digits)
qed

lemma py_int_fmt03:
  assumes "i < 1000"
  shows "py_int U (fmt03 i) = Inr (int i)"
proof -
  have "py_int U (fmt03 i) = Inr (int (i div 100 * 100 + i div 10 mod 10 * 10 + i mod 10))"
    using digit_bounds [OF assms] by (simp add: fmt03_small [OF assms] py_int_3_digits)
  moreover have "i div 100 * 100 + i div 10 mod 10 * 10 + i mod 10 = i"
  proof -
    have "i div 10 div 10 = i div 100"
      by (simp add: div_mult2_eq [symmetric])
    with div_mult_mod_eq [of "i div 10" 10] have "i div 10 = i div 100 * 10 + i div 10 mod 10"
      by simp
    moreover have "i = i div 10 * 10 + i mod 10"
      by simp
    ultimately show ?thesis
      by linarith
  qed
  ultimately show ?thesis
    by simp
qed

lemma fmt03_inj:
  assumes "i < 1000" and "j < 1000" and "fmt03 i = fmt03 j"
  shows "i = j"
proof -
  have "py_int latin1 (fmt03 i) = py_int latin1 (fmt03 j)"
    using assms(3) by simp
  with assms(1,2) show ?thesis
    by (simp add: py_int_fmt03)
qed

subsection \<open>The candidates that guess generates\<close>

lemma calculate_checksum_check_char:
  "ascii_ok U \<Longrightarrow> length p = 17 \<Longrightarrow> list_all ascii_digit p \<Longrightarrow>
   calculate_checksum U p = Inr (check_char p)"
  by (simp add: calculate_checksum_ascii check_char_def)

lemma calculate_checksum_length: "length p \<noteq> 17 \<Longrightarrow> calculate_checksum U p = Inl ValueError"
  by (simp add: calculate_checksum_def)

lemma guess_loop_ascii:
  assumes "ascii_ok U" and "length p = 14" and "list_all ascii_digit p"
    and "\<forall>i \<in> set ks. i < 1000"
  shows "guess_loop U p ks acc
         = Inr (acc @ map (candidate p) ks)"
  using assms(4)
proof (induction ks arbitrary: acc)
  case Nil
  show ?case by simp
next
  case (Cons i ks)
  then have i: "i < 1000"
    by simp
  from assms(2,3) fmt03_digits [OF i] have "length (p @ fmt03 i) = 17"
    and "list_all ascii_digit (p @ fmt03 i)"
    by simp_all
  with assms(1) have "calculate_checksum U (p @ fmt03 i) = Inr (check_char (p @ fmt03 i))"
    by (rule calculate_checksum_check_char)
  with Cons show ?case
    by (simp add: candidate_def)
qed

lemma guess_loop_raises:
  "length p \<noteq> 14 \<Longrightarrow> i < 1000 \<Longrightarrow> guess_loop U p (i # ks) acc = Inl ValueError"
  by (simp add: calculate_checksum_length fmt03_digits(1))

lemma range_odd: "range_step 1 1000 2 = map (\<lambda>k. 2 * k + 1) [0..<500]"
  by (simp add: range_step_def)

lemma range_even: "range_step 2 1000 2 = map (\<lambda>k. 2 * k + 2) [0..<499]"
  by (simp add: range_step_def)

lemma str_upper_M: "ascii_ok U \<Longrightarrow> str_upper U (of_ascii ''M'') = of_ascii ''M''"
  by (simp add: str_upper_def ascii_ok_def of_ascii_def)

lemma str_upper_F: "ascii_ok U \<Longrightarrow> str_upper U (of_ascii ''F'') = of_ascii ''F''"
  by (simp add: str_upper_def ascii_ok_def of_ascii_def)

lemma guess_ascii:
  assumes "ascii_ok U" and "area_codes self area \<noteq> None"
    and "length area = 6" and "list_all ascii_digit area"
    and "length bd = 8" and "list_all ascii_digit bd"
    and "strptime U bd = Inr birth"
  shows "guess U self area bd (of_ascii ''M'')
         = Inr (Inr (map (\<lambda>k. candidate (area @ bd) (2 * k + 1)) [0..<500]))"
    and "guess U self area bd (of_ascii ''F'')
         = Inr (Inr (map (\<lambda>k. candidate (area @ bd) (2 * k + 2)) [0..<499]))"
proof -
  have p: "length (area @ bd) = 14" "list_all ascii_digit (area @ bd)"
    using assms(3-6) by simp_all
  have o: "\<forall>i \<in> set (map (\<lambda>k. 2 * k + 1) [0..<500]). i < 1000"
    by auto
  have e: "\<forall>i \<in> set (map (\<lambda>k. 2 * k + 2) [0..<499]). i < 1000"
    by auto
  have mf: "of_ascii ''M'' \<noteq> of_ascii ''F''"
    by (simp add: of_ascii_def)
  have lo: "guess_loop U (area @ bd) (range_step 1 1000 2) []
            = Inr (map (\<lambda>k. candidate (area @ bd) (2 * k + 1)) [0..<500])"
    using guess_loop_ascii [OF assms(1) p o, of "[]"]
    by (simp only: range_odd map_map comp_def append_Nil)
  have le: "guess_loop U (area @ bd) (range_step 2 1000 2) []
            = Inr (map (\<lambda>k. candidate (area @ bd) (2 * k + 2)) [0..<499])"
    using guess_loop_ascii [OF assms(1) p e, of "[]"]
    by (simp only: range_even map_map comp_def append_Nil)
  have gm: "guess U self area bd (of_ascii ''M'')
            = (case guess_loop U (area @ bd) (range_step 1 1000 2) [] of
                 Inl x \<Rightarrow> Inl x | Inr ids \<Rightarrow> Inr (Inr ids))"
    using assms(2,7) by (auto simp: guess_def str_upper_M [OF assms(1)])
  have gf: "guess U self area bd (of_ascii ''F'')
            = (case guess_loop U (area @ bd) (range_step 2 1000 2) [] of
                 Inl x \<Rightarrow> Inl x | Inr ids \<Rightarrow> Inr (Inr ids))"
    using assms(2,7) mf by (auto simp: guess_def str_upper_F [OF assms(1)])
  show "guess U self area bd (of_ascii ''M'')
         = Inr (Inr (map (\<lambda>k. candidate (area @ bd) (2 * k + 1)) [0..<500]))"
    by (simp only: gm lo sum.case)
  show "guess U self area bd (of_ascii ''F'')
         = Inr (Inr (map (\<lambda>k. candidate (area @ bd) (2 * k + 2)) [0..<499]))"
    by (simp only: gf le sum.case)
qed


lemma candidate_parts:
  assumes "length p = 14" and "i < 1000"
  shows "take 14 (candidate p i) = p" and "take 3 (drop 14 (candidate p i)) = fmt03 i"
    and "length (candidate p i) = 18" and "take 17 (candidate p i) = p @ fmt03 i"
    and "candidate p i ! 17 = check_char (p @ fmt03 i)"
  using assms fmt03_digits(1) [OF assms(2)]
  by (simp_all add: candidate_def nth_append)

lemma candidate_sequence_number:
  "length p = 14 \<Longrightarrow> i < 1000 \<Longrightarrow> sequence_number U (candidate p i) = Inr (int i)"
  by (simp add: sequence_number_def candidate_parts py_int_fmt03)

lemma candidates_props:
  assumes p: "length p = 14" and g: "\<forall>k < n. g k < 1000" and m: "\<forall>j k. j < k \<longrightarrow> g j < g k"
  shows "length (map (\<lambda>k. candidate p (g k)) [0..<n]) = n"
    and "map (\<lambda>x. take 3 (drop 14 x)) (map (\<lambda>k. candidate p (g k)) [0..<n])
         = map (\<lambda>k. fmt03 (g k)) [0..<n]"
    and "map (sequence_number U) (map (\<lambda>k. candidate p (g k)) [0..<n])
         = map (\<lambda>k. Inr (int (g k))) [0..<n]"
    and "sorted_wrt (\<lambda>x y. \<exists>a b. sequence_number U x = Inr a \<and> sequence_number U y = Inr b \<and> a < b)
           (map (\<lambda>k. candidate p (g k)) [0..<n])"
    and "distinct (map (\<lambda>k. candidate p (g k)) [0..<n])"
    and "\<forall>x \<in> set (map (\<lambda>k. candidate p (g k)) [0..<n]). take 14 x = p \<and> length x = 18"
proof -
  show "length (map (\<lambda>k. candidate p (g k)) [0..<n]) = n"
    by simp
  show "map (\<lambda>x. take 3 (drop 14 x)) (map (\<lambda>k. candidate p (g k)) [0..<n])
         = map (\<lambda>k. fmt03 (g k)) [0..<n]"
    using p g by (simp add: candidate_parts)
  show "map (sequence_number U) (map (\<lambda>k. candidate p (g k)) [0..<n])
         = map (\<lambda>k. Inr (int (g k))) [0..<n]"
    using p g by (simp add: candidate_sequence_number)
  show "sorted_wrt (\<lambda>x y. \<exists>a b. sequence_number U x = Inr a \<and> sequence_number U y = Inr b \<and> a < b)
           (map (\<lambda>k. candidate p (g k)) [0..<n])"
    using p g m by (simp add: sorted_wrt_iff_nth_less candidate_sequence_number)
  show "distinct (map (\<lambda>k. candidate p (g k)) [0..<n])"
  proof -
    have "inj_on (\<lambda>k. candidate p (g k)) (set [0..<n])"
    proof (rule inj_onI)
      fix j k
      assume jk: "j \<in> set [0..<n]" "k \<in> set [0..<n]"
        and eq: "candidate p (g j) = candidate p (g k)"
      from jk g have b: "g j < 1000" "g k < 1000"
        by simp_all
      from eq have "take 3 (drop 14 (candidate p (g j))) = take 3 (drop 14 (candidate p (g k)))"
        by simp
      with p b have "fmt03 (g j) = fmt03 (g k)"
        by (simp add: candidate_parts)
      with b have "g j = g k"
        by (rule fmt03_inj)
      with m show "j = k"
        by (metis less_irrefl nat_neq_iff)
    qed
    then show ?thesis
      by (simp add: distinct_map)
  qed
  show "\<forall>x \<in> set (map (\<lambda>k. candidate p (g k)) [0..<n]). take 14 x = p \<and> length x = 18"
    using p g by (auto simp: candidate_parts)
qed

section \<open>C4: the candidates that guess returns\<close>

text \<open>
  Claim C4. For every region code present in the table, every string of eight digits
  that parses as a calendar date, and each sex, \<^verbatim>\<open>guess\<close> returns exactly 500 candidates
  for M and 499 for F, in ascending order of the sequence codes and without duplicates.
  The code does not do this for every region code of the table. The table holds the
  codes of every level of the region tree, and \<^verbatim>\<open>guess\<close> tests membership only: for the
  two-digit province code 11 the prefix has 13 characters, \<^verbatim>\<open>_calculate_checksum\<close>
  raises \<^verbatim>\<open>ValueError\<close>, and nothing in \<^verbatim>\<open>guess\<close> catches it, although \<^verbatim>\<open>validate\<close> guards
  the same call and \<^verbatim>\<open>guess\<close> returns an error list for every other bad argument.
\<close>

theorem guess_raises_on_province_code:
  "area_codes sample_toolkit (of_ascii ''11'') = Some [21271, 20140, 24066]
   \<and> strptime latin1 (of_ascii ''19491231'')
       = Inr \<lparr> year = 1949, month = 12, day = 31,
               hour = 0, minute = 0, second = 0, microsecond = 0 \<rparr>
   \<and> guess latin1 sample_toolkit (of_ascii ''11'') (of_ascii ''19491231'') (of_ascii ''M'')
       = Inl ValueError"
proof -
  have a: "area_codes sample_toolkit (of_ascii ''11'') = Some [21271, 20140, 24066]"
    by (simp add: sample_toolkit_def sample_tree_def of_ascii_def)
  have b: "strptime latin1 (of_ascii ''19491231'')
       = Inr \<lparr> year = 1949, month = 12, day = 31,
               hour = 0, minute = 0, second = 0, microsecond = 0 \<rparr>"
    by (simp add: eval_defs)
  have r: "range_step 1 1000 2 = 1 # map (\<lambda>k. 2 * k + 1) [1..<500]"
    unfolding range_odd by (subst upt_rec) simp
  have "length (of_ascii ''11'' @ of_ascii ''19491231'') \<noteq> 14"
    by (simp add: of_ascii_def)
  then have "guess_loop latin1 (of_ascii ''11'' @ of_ascii ''19491231'')
                     (range_step 1 1000 2) [] = Inl ValueError"
    unfolding r by (rule guess_loop_raises) simp
  moreover have "str_upper latin1 (of_ascii ''M'') = of_ascii ''M''"
    by (rule str_upper_M [OF ascii_ok_latin1])
  ultimately have "guess latin1 sample_toolkit (of_ascii ''11'') (of_ascii ''19491231'')
                     (of_ascii ''M'') = Inl ValueError"
    using a b by (simp add: guess_def)
  with a b show ?thesis
    by simp
qed

text \<open>The same happens for every key of the table that does not have six characters.\<close>

lemma guess_raises_unless_six:
  assumes "ascii_ok U" and "area_codes self area \<noteq> None" and "length area \<noteq> 6"
    and "length bd = 8" and "strptime U bd = Inr birth"
  shows "guess U self area bd (of_ascii ''M'') = Inl ValueError"
proof -
  have r: "range_step 1 1000 2 = 1 # map (\<lambda>k. 2 * k + 1) [1..<500]"
    unfolding range_odd by (subst upt_rec) simp
  have "length (area @ bd) \<noteq> 14"
    using assms(3,4) by simp
  then have "guess_loop U (area @ bd) (range_step 1 1000 2) [] = Inl ValueError"
    unfolding r by (rule guess_loop_raises) simp
  with assms(2,5) show ?thesis
    by (auto simp: guess_def str_upper_M [OF assms(1)])
qed

text \<open>
  For region codes of six digits the code does what the claim says: for every region
  code of six digits that is present in the table, every string of eight digits that
  parses as a calendar date, and each sex, \<^verbatim>\<open>guess\<close> returns exactly 500 candidates for
  M, with the sequence codes 001, 003, ..., 999, and exactly 499 for F, with the
  sequence codes 002, 004, ..., 998; the candidates are in strictly ascending order of
  their sequence numbers and there are no duplicates.
\<close>

theorem guess_candidates:
  assumes "ascii_ok U" and "area_codes self area \<noteq> None"
    and "length area = 6" and "list_all ascii_digit area"
    and "length bd = 8" and "list_all ascii_digit bd"
    and "strptime U bd = Inr birth"
  shows "\<exists>males females.
           guess U self area bd (of_ascii ''M'') = Inr (Inr males)
         \<and> guess U self area bd (of_ascii ''F'') = Inr (Inr females)
         \<and> length males = 500 \<and> length females = 499
         \<and> map (\<lambda>x. take 3 (drop 14 x)) males = map (\<lambda>k. fmt03 (2 * k + 1)) [0..<500]
         \<and> map (\<lambda>x. take 3 (drop 14 x)) females = map (\<lambda>k. fmt03 (2 * k + 2)) [0..<499]
         \<and> map (sequence_number U) males = map (\<lambda>k. Inr (int (2 * k + 1))) [0..<500]
         \<and> map (sequence_number U) females = map (\<lambda>k. Inr (int (2 * k + 2))) [0..<499]
         \<and> sorted_wrt (\<lambda>x y. \<exists>a b. sequence_number U x = Inr a
                              \<and> sequence_number U y = Inr b \<and> a < b) males
         \<and> sorted_wrt (\<lambda>x y. \<exists>a b. sequence_number U x = Inr a
                              \<and> sequence_number U y = Inr b \<and> a < b) females
         \<and> distinct males \<and> distinct females
         \<and> (\<forall>x \<in> set males \<union> set females. take 14 x = area @ bd \<and> length x = 18)"
proof -
  let ?males = "map (\<lambda>k. candidate (area @ bd) (2 * k + 1)) [0..<500]"
  let ?females = "map (\<lambda>k. candidate (area @ bd) (2 * k + 2)) [0..<499]"
  have p: "length (area @ bd) = 14"
    using assms(3,5) by simp
  have o: "\<forall>k < 500. 2 * k + 1 < (1000::nat)" and e: "\<forall>k < 499. 2 * k + 2 < (1000::nat)"
    by auto
  have mo: "\<forall>j k::nat. j < k \<longrightarrow> 2 * j + 1 < 2 * k + 1"
    and me: "\<forall>j k::nat. j < k \<longrightarrow> 2 * j + 2 < 2 * k + 2"
    by auto
  note g = guess_ascii [OF assms]
  note m = candidates_props [where p = "area @ bd" and n = 500 and g = "\<lambda>k. 2 * k + 1",
      OF p o mo]
  note f = candidates_props [where p = "area @ bd" and n = 499 and g = "\<lambda>k. 2 * k + 2",
      OF p e me]
  have "\<forall>x \<in> set ?males \<union> set ?females. take 14 x = area @ bd \<and> length x = 18"
    using m(6) f(6) by blast
  with g m(1-5) f(1-5) show ?thesis
    by blast
qed

text \<open>The theorem at the district code 110105 of the sample table and the date
  1949-12-31; the first and the last sequence codes.\<close>

theorem guess_candidates_witness:
  "ascii_ok latin1
   \<and> area_codes sample_toolkit (of_ascii ''110105'') \<noteq> None
   \<and> length (of_ascii ''110105'') = 6 \<and> list_all ascii_digit (of_ascii ''110105'')
   \<and> length (of_ascii ''19491231'') = 8 \<and> list_all ascii_digit (of_ascii ''19491231'')
   \<and> strptime latin1 (of_ascii ''19491231'')
       = Inr \<lparr> year = 1949, month = 12, day = 31,
               hour = 0, minute = 0, second = 0, microsecond = 0 \<rparr>
   \<and> (\<exists>males females.
           guess latin1 sample_toolkit (of_ascii ''110105'') (of_ascii ''19491231'') (of_ascii ''M'')
             = Inr (Inr males)
         \<and> guess latin1 sample_toolkit (of_ascii ''110105'') (of_ascii ''19491231'') (of_ascii ''F'')
             = Inr (Inr females)
         \<and> length males = 500 \<and> length females = 499
         \<and> distinct males \<and> distinct females)
   \<and> fmt03 1 = of_ascii ''001'' \<and> fmt03 999 = of_ascii ''999''
   \<and> fmt03 2 = of_ascii ''002'' \<and> fmt03 998 = of_ascii ''998''"
proof -
  have a: "area_codes sample_toolkit (of_ascii ''110105'') \<noteq> None"
    by (simp add: sample_toolkit_def sample_tree_def of_ascii_def)
  have la: "length (of_ascii ''110105'') = 6" and da: "list_all ascii_digit (of_ascii ''110105'')"
    and lb: "length (of_ascii ''19491231'') = 8"
    and db: "list_all ascii_digit (of_ascii ''19491231'')"
    by (simp_all add: of_ascii_def ascii_digit_def)
  have b: "strptime latin1 (of_ascii ''19491231'')
       = Inr \<lparr> year = 1949, month = 12, day = 31,
               hour = 0, minute = 0, second = 0, microsecond = 0 \<rparr>"
    by (simp add: eval_defs)
  have f: "fmt03 1 = of_ascii ''001'' \<and> fmt03 999 = of_ascii ''999''
           \<and> fmt03 2 = of_ascii ''002'' \<and> fmt03 998 = of_ascii ''998''"
    by (simp add: fmt03_small of_ascii_def)
  from guess_candidates [OF ascii_ok_latin1 a la da lb db b]
  have "\<exists>males females.
           guess latin1 sample_toolkit (of_ascii ''110105'') (of_ascii ''19491231'') (of_ascii ''M'')
             = Inr (Inr males)
         \<and> guess latin1 sample_toolkit (of_ascii ''110105'') (of_ascii ''19491231'') (of_ascii ''F'')
             = Inr (Inr females)
         \<and> length males = 500 \<and> length females = 499
         \<and> distinct males \<and> distinct females"
    by blast
  with ascii_ok_latin1 a la da lb db b f show ?thesis
    by blast
qed

subsection \<open>Validating and parsing a generated candidate\<close>

lemma validate_candidate:
  assumes U: "ascii_ok U" and area: "area_codes self area \<noteq> None"
    and la: "length area = 6" and da: "list_all ascii_digit area"
    and lb: "length bd = 8" and db: "list_all ascii_digit bd"
    and date: "strptime U bd = Inr birth" and past: "\<not> dt_gt birth now"
    and i: "i < 1000"
  shows "validate U self now (candidate (area @ bd) i) = Inr (True, IdValid)"
proof -
  let ?p = "area @ bd @ fmt03 i"
  have l: "length ?p = 17" and d: "list_all ascii_digit ?p"
    using la lb da db fmt03_digits [OF i] by simp_all
  from U l d have c: "calculate_checksum U ?p = Inr (check_char ?p)"
    by (rule calculate_checksum_check_char)
  have a: "area_codes self (take 6 ?p) \<noteq> None"
    using area la by simp
  have b: "strptime U (take 8 (drop 6 ?p)) = Inr birth"
    using date la lb by simp
  from validate_prefix_with_checksum [OF U l d a b past c] show ?thesis
    by (simp add: candidate_def)
qed

lemma candidate_17th:
  assumes "length p = 14" and "i < 1000"
  shows "candidate p i ! 16 = 48 + i mod 10"
  using assms by (simp add: candidate_def nth_append fmt03_small)

lemma parse_candidate:
  assumes U: "ascii_ok U" and area: "area_codes self area \<noteq> None"
    and la: "length area = 6" and da: "list_all ascii_digit area"
    and lb: "length bd = 8" and db: "list_all ascii_digit bd"
    and date: "strptime U bd = Inr birth" and past: "\<not> dt_gt birth now"
    and i: "i < 1000"
  shows "\<exists>r. parse U self now today (candidate (area @ bd) i) = Inr (Parsed r)
             \<and> p_gender r = (if odd i then Male else Female)
             \<and> p_birth_date r = \<lparr> year = year birth, month = month birth, day = day birth \<rparr>
             \<and> p_address_code r = area \<and> p_sequence_code r = fmt03 i"
proof -
  let ?x = "candidate (area @ bd) i"
  have p: "length (area @ bd) = 14"
    using la lb by simp
  note parts = candidate_parts [OF p i]
  have v: "validate U self now ?x = Inr (True, IdValid)"
    using assms by (rule validate_candidate)
  have a6: "take 6 ?x = area"
    using la by (simp add: candidate_def)
  have b8: "take 8 (drop 6 ?x) = bd"
    using la lb by (simp add: candidate_def)
  have s: "py_int U (fmt03 i) = Inr (int i)"
    using i by (rule py_int_fmt03)
  have c16: "?x ! 16 = 48 + i mod 10"
    using p i by (rule candidate_17th)
  have g: "py_int U [48 + i mod 10] = Inr (int (i mod 10))"
    using py_int_ascii_digit [OF digit_bounds(3) [OF i], of U] by simp
  have par: "int (i mod 10) mod 2 \<noteq> 0 \<longleftrightarrow> odd i"
    by presburger
  have ne: "?x \<noteq> []" and len: "\<not> length ?x \<le> 16"
    using parts(3) by auto
  show ?thesis
    using par by (simp add: parse_def v a6 b8 date s c16 g ne len parts(2) Let_def)
qed

section \<open>C5: generated numbers are valid and parse back\<close>

text \<open>
  Claim C5 says that every number returned by a successful call of \<^verbatim>\<open>guess\<close> is accepted
  by \<^verbatim>\<open>validate\<close>. \<^verbatim>\<open>guess\<close> checks that the date parses, not that it is in the past:
  for the date 2999-12-31 it returns 500 numbers, and \<^verbatim>\<open>validate\<close> rejects the first of
  them, 110105299912310012, with the future-date reason.
\<close>

theorem guess_id_rejected_for_future_date:
  "map_sum id (map_sum id hd)
     (guess latin1 sample_toolkit (of_ascii ''110105'') (of_ascii ''29991231'') (of_ascii ''M''))
   = Inr (Inr (of_ascii ''110105299912310012''))
   \<and> validate latin1 sample_toolkit sample_now (of_ascii ''110105299912310012'')
       = Inr (False, FutureDateError (of_ascii ''29991231''))"
proof -
  have a: "area_codes sample_toolkit (of_ascii ''110105'') \<noteq> None"
    by (simp add: sample_toolkit_def sample_tree_def of_ascii_def)
  have la: "length (of_ascii ''110105'') = 6" and da: "list_all ascii_digit (of_ascii ''110105'')"
    and lb: "length (of_ascii ''29991231'') = 8"
    and db: "list_all ascii_digit (of_ascii ''29991231'')"
    by (simp_all add: of_ascii_def ascii_digit_def)
  have b: "strptime latin1 (of_ascii ''29991231'')
       = Inr \<lparr> year = 2999, month = 12, day = 31,
               hour = 0, minute = 0, second = 0, microsecond = 0 \<rparr>"
    by (simp add: eval_defs)
  have h: "hd (map (\<lambda>k. candidate (of_ascii ''110105'' @ of_ascii ''29991231'') (2 * k + 1))
                [0..<500])
           = candidate (of_ascii ''110105'' @ of_ascii ''29991231'') 1"
    by (subst upt_rec) simp
  have c: "candidate (of_ascii ''110105'' @ of_ascii ''29991231'') 1
           = of_ascii ''110105299912310012''"
    by (simp add: candidate_def fmt03_small check_char_def of_ascii_def WEIGHTS_def
        CHECKSUM_MAP_def)
  have "map_sum id (map_sum id hd)
     (guess latin1 sample_toolkit (of_ascii ''110105'') (of_ascii ''29991231'') (of_ascii ''M''))
   = Inr (Inr (of_ascii ''110105299912310012''))"
    by (simp only: guess_ascii(1) [OF ascii_ok_latin1 a la da lb db b] map_sum.simps h c id_apply)
  moreover have "validate latin1 sample_toolkit sample_now (of_ascii ''110105299912310012'')
       = Inr (False, FutureDateError (of_ascii ''29991231''))"
    by (simp add: eval_defs)
  ultimately show ?thesis
    by simp
qed

text \<open>
  Claim C5, amended. Let the region code be six digits and present in the table, the
  date eight digits that parse as a calendar date not after the current time, and the
  sex M or F. For every number in the list returned by \<^verbatim>\<open>guess\<close>, \<^verbatim>\<open>validate\<close> returns
  true, and \<^verbatim>\<open>parse\<close> returns a parsed identity whose sex is the one asked for and whose
  birth date is the date given.
\<close>

theorem guess_ids_validate_and_parse:
  assumes "ascii_ok U" and "area_codes self area \<noteq> None"
    and "length area = 6" and "list_all ascii_digit area"
    and "length bd = 8" and "list_all ascii_digit bd"
    and "strptime U bd = Inr birth" and "\<not> dt_gt birth now"
    and "sex = of_ascii ''M'' \<or> sex = of_ascii ''F''"
    and "guess U self area bd sex = Inr (Inr ids)" and "x \<in> set ids"
  shows "validate U self now x = Inr (True, IdValid)
         \<and> (\<exists>r. parse U self now today x = Inr (Parsed r)
                \<and> p_gender r = (if sex = of_ascii ''M'' then Male else Female)
                \<and> p_birth_date r = \<lparr> year = year birth, month = month birth, day = day birth \<rparr>)"
proof -
  note g = guess_ascii [OF assms(1-7)]
  have mf: "of_ascii ''F'' \<noteq> of_ascii ''M''"
    by (simp add: of_ascii_def)
  from assms(9) obtain i where i: "i < 1000" and x: "x = candidate (area @ bd) i"
    and o: "odd i \<longleftrightarrow> sex = of_ascii ''M''"
  proof
    assume s: "sex = of_ascii ''M''"
    with g(1) assms(10,11) obtain k where "k < 500" and "x = candidate (area @ bd) (2 * k + 1)"
      by auto
    with s that [of "2 * k + 1"] show thesis
      by simp
  next
    assume s: "sex = of_ascii ''F''"
    with g(2) assms(10,11) obtain k where "k < 499" and "x = candidate (area @ bd) (2 * k + 2)"
      by auto
    with s mf that [of "2 * k + 2"] show thesis
      by simp
  qed
  from validate_candidate [OF assms(1-8) i] parse_candidate [OF assms(1-8) i, of today] x o
  show ?thesis
    by auto
qed

text \<open>The theorem at the number 110105194912310011, the first that \<^verbatim>\<open>guess\<close> returns for
  the district 110105, the date 1949-12-31 and the sex M.\<close>

theorem guess_ids_validate_and_parse_witness:
  "(\<exists>ids. guess latin1 sample_toolkit (of_ascii ''110105'') (of_ascii ''19491231'') (of_ascii ''M'')
            = Inr (Inr ids)
          \<and> of_ascii ''110105194912310011'' \<in> set ids)
   \<and> validate latin1 sample_toolkit sample_now (of_ascii ''110105194912310011'')
       = Inr (True, IdValid)
   \<and> (\<exists>r. parse latin1 sample_toolkit sample_now sample_today (of_ascii ''110105194912310011'')
            = Inr (Parsed r)
          \<and> p_gender r = Male
          \<and> p_birth_date r = \<lparr> year = 1949, month = 12, day = 31 \<rparr>)"
proof -
  have a: "area_codes sample_toolkit (of_ascii ''110105'') \<noteq> None"
    by (simp add: sample_toolkit_def sample_tree_def of_ascii_def)
  have la: "length (of_ascii ''110105'') = 6" and da: "list_all ascii_digit (of_ascii ''110105'')"
    and lb: "length (of_ascii ''19491231'') = 8"
    and db: "list_all ascii_digit (of_ascii ''19491231'')"
    by (simp_all add: of_ascii_def ascii_digit_def)
  have b: "strptime latin1 (of_ascii ''19491231'')
       = Inr \<lparr> year = 1949, month = 12, day = 31,
               hour = 0, minute = 0, second = 0, microsecond = 0 \<rparr>"
    by (simp add: eval_defs)
  have f: "\<not> dt_gt \<lparr> year = 1949, month = 12, day = 31,
                hour = 0, minute = 0, second = 0, microsecond = 0 \<rparr> sample_now"
    by (simp add: dt_gt_def dt_fields_def sample_now_def)
  let ?ids = "map (\<lambda>k. candidate (of_ascii ''110105'' @ of_ascii ''19491231'') (2 * k + 1))
                [0..<500]"
  have g: "guess latin1 sample_toolkit (of_ascii ''110105'') (of_ascii ''19491231'') (of_ascii ''M'')
            = Inr (Inr ?ids)"
    by (rule guess_ascii(1) [OF ascii_ok_latin1 a la da lb db b])
  have "candidate (of_ascii ''110105'' @ of_ascii ''19491231'') (2 * 0 + 1)
        = of_ascii ''110105194912310011''"
    by (simp add: candidate_def fmt03_small check_char_def of_ascii_def WEIGHTS_def
        CHECKSUM_MAP_def)
  moreover have "candidate (of_ascii ''110105'' @ of_ascii ''19491231'') (2 * 0 + 1) \<in> set ?ids"
    by (simp only: set_map) (rule image_eqI [where x = 0], simp_all)
  ultimately have m: "of_ascii ''110105194912310011'' \<in> set ?ids"
    by simp
  from guess_ids_validate_and_parse [OF ascii_ok_latin1 a la da lb db b f _ g m,
      of sample_today] g m
  show ?thesis
    by auto
qed

subsection \<open>The first loop of the analysis\<close>

lemma validate_loop_filter:
  "validate_loop U self now ids valid invalid
   = Inr (valid @ filter (accepted U self now) ids,
          invalid @ map (\<lambda>x. (x, snd (projr (validate U self now x))))
                        (filter (\<lambda>x. \<not> accepted U self now x) ids))"
proof (induction ids arbitrary: valid invalid)
  case Nil
  show ?case by simp
next
  case (Cons x ids)
  obtain b r where v: "validate U self now x = Inr (b, r)"
    using validate_total by blast
  then show ?case
    by (cases b) (simp_all add: Cons accepted_def)
qed

subsection \<open>The sequence number of an accepted number\<close>

lemma sum_products_converts:
  "sum_products U tot ps = Inr v \<Longrightarrow> \<forall>c \<in> set (map fst ps). \<exists>d. py_int U [c] = Inr d"
proof (induction ps arbitrary: tot)
  case Nil
  show ?case by simp
next
  case (Cons a ps)
  obtain digit weight where a: "a = (digit, weight)"
    by (cases a)
  with Cons.prems obtain d where d: "py_int U [digit] = Inr d"
    and r: "sum_products U (tot + d * weight) ps = Inr v"
    by (auto split: sum.splits)
  from Cons.IH [OF r] d a show ?case
    by auto
qed

lemma calculate_checksum_converts:
  assumes "calculate_checksum U p = Inr c"
  shows "length p = 17" and "\<forall>x \<in> set p. \<exists>d. py_int U [x] = Inr d"
proof -
  from assms show l: "length p = 17"
    by (auto simp: calculate_checksum_def split: if_splits)
  from assms obtain v where "sum_products U 0 (zip p WEIGHTS) = Inr v"
    by (auto simp: calculate_checksum_def split: if_splits sum.splits)
  from sum_products_converts [OF this] l show "\<forall>x \<in> set p. \<exists>d. py_int U [x] = Inr d"
    by (simp add: WEIGHTS_def)
qed

lemma accepted_checksum:
  assumes "accepted U self now x"
  shows "length (normalize U x) = 18"
    and "\<exists>c. calculate_checksum U (take 17 (normalize U x)) = Inr c"
proof -
  from assms have v: "\<exists>r. validate U self now x = Inr (True, r)"
    by (auto simp: accepted_def split: sum.splits)
  show l: "length (normalize U x) = 18"
  proof (rule ccontr)
    assume "length (normalize U x) \<noteq> 18"
    from validate_reject_length [OF this, of self now] v show False
      by simp
  qed
  from validate_18 [OF l, of self now] v
  show "\<exists>c. calculate_checksum U (take 17 (normalize U x)) = Inr c"
    by (simp add: Let_def split: if_splits sum.splits)
qed

lemma long_from_string_single:
  assumes "long_from_string [a] = Inr d"
  shows "c_isdigit a"
proof (rule ccontr)
  assume n: "\<not> c_isdigit a"
  have "long_from_string [a] = Inl ValueError"
  proof (cases "c_isspace a")
    case True
    then show ?thesis
      by (simp add: long_from_string_def)
  next
    case False
    then have t1: "dropWhile c_isspace [a] = [a]"
      by simp
    show ?thesis
    proof (cases "a = 43 \<or> a = 45")
      case True
      then show ?thesis
        unfolding long_from_string_def Let_def t1 by simp
    next
      case s: False
      then have t2: "(if [a] \<noteq> [] \<and> (hd [a] = 43 \<or> hd [a] = 45) then tl [a] else [a]) = [a]"
        by simp
      show ?thesis
        unfolding long_from_string_def Let_def t1 t2 using n by simp
    qed
  qed
  with assms show False
    by simp
qed

lemma py_int_single:
  "py_int U [a] = Inr d \<Longrightarrow> c_isdigit (to_ascii U a)"
  by (simp add: py_int_def long_from_string_single)

lemma py_int_3_converting:
  assumes "c_isdigit (to_ascii U a)" and "c_isdigit (to_ascii U b)" and "c_isdigit (to_ascii U c)"
  shows "\<exists>n. 0 \<le> n \<and> py_int U [a, b, c] = Inr n"
  using long_from_string_3_digits [OF assms] by (simp add: py_int_def)

lemma take3_drop14:
  assumes "17 \<le> length x"
  shows "take 3 (drop 14 x) = [x ! 14, x ! 15, x ! 16]"
proof -
  from assms have "14 < length x" "15 < length x" "16 < length x"
    by simp_all
  then have "drop 14 x = x ! 14 # drop 15 x" "drop 15 x = x ! 15 # drop 16 x"
    "drop 16 x = x ! 16 # drop 17 x"
    using Cons_nth_drop_Suc [of 14 x] Cons_nth_drop_Suc [of 15 x] Cons_nth_drop_Suc [of 16 x]
    by simp_all
  then have "drop 14 x = x ! 14 # x ! 15 # x ! 16 # drop 17 x"
    by simp
  then show ?thesis
    by (simp add: numeral_3_eq_3)
qed

lemma accepted_sequence_number:
  assumes a: "accepted U self now x" and h: "take 17 (normalize U x) = take 17 x"
  shows "\<exists>n. 0 \<le> n \<and> sequence_number U x = Inr n"
proof -
  from accepted_checksum [OF a] obtain c where l: "length (normalize U x) = 18"
    and c: "calculate_checksum U (take 17 x) = Inr c"
    using h by auto
  from h have "length (take 17 (normalize U x)) = length (take 17 x)"
    by simp
  with l have lx: "17 \<le> length x"
    by simp
  note conv = calculate_checksum_converts(2) [OF c]
  from lx have "x ! 14 = take 17 x ! 14" "x ! 15 = take 17 x ! 15" "x ! 16 = take 17 x ! 16"
    by simp_all
  moreover from lx have b: "14 < length (take 17 x)" "15 < length (take 17 x)"
    "16 < length (take 17 x)"
    by simp_all
  moreover have "take 17 x ! 14 \<in> set (take 17 x)" "take 17 x ! 15 \<in> set (take 17 x)"
    "take 17 x ! 16 \<in> set (take 17 x)"
    using nth_mem [OF b(1)] nth_mem [OF b(2)] nth_mem [OF b(3)] by blast+
  ultimately have "x ! 14 \<in> set (take 17 x)" "x ! 15 \<in> set (take 17 x)"
    "x ! 16 \<in> set (take 17 x)"
    by simp_all
  with conv obtain d1 d2 d3 where "py_int U [x ! 14] = Inr d1" "py_int U [x ! 15] = Inr d2"
    "py_int U [x ! 16] = Inr d3"
    by blast
  then have "c_isdigit (to_ascii U (x ! 14))" "c_isdigit (to_ascii U (x ! 15))"
    "c_isdigit (to_ascii U (x ! 16))"
    by (auto dest: py_int_single)
  from py_int_3_converting [OF this] show ?thesis
    by (simp add: sequence_number_def take3_drop14 [OF lx])
qed

subsection \<open>The estimate of a bucket\<close>

lemma py_max_Max: "xs \<noteq> [] \<Longrightarrow> py_max xs = Max (set xs)"
proof -
  assume "xs \<noteq> []"
  then obtain x r where "xs = x # r"
    by (cases xs) auto
  then show ?thesis
    by (simp only: py_max_def list.sel Max.set_eq_fold)
qed

lemma report_entry_spec:
  assumes "\<forall>n \<in> set seqs. 0 \<le> n"
  shows "report_entry \<lparr> male_seqs = filter (\<lambda>n. n mod 2 \<noteq> 0) seqs,
                         female_seqs = filter (\<lambda>n. \<not> n mod 2 \<noteq> 0) seqs \<rparr>
         = spec_estimate seqs"
proof -
  let ?odds = "filter odd seqs" and ?evens = "filter even seqs"
  have o: "filter (\<lambda>n. n mod 2 \<noteq> 0) seqs = ?odds"
    and e: "filter (\<lambda>n. \<not> n mod 2 \<noteq> 0) seqs = ?evens"
    by (simp_all add: odd_iff_mod_2_eq_one even_iff_mod_2_eq_zero cong: filter_cong)
  have len: "length ?odds + length ?evens = length seqs"
    using sum_length_filter_compl [of odd seqs] by simp
  have mo: "?odds \<noteq> [] \<Longrightarrow> 0 < Max (set ?odds)"
  proof -
    assume ne: "?odds \<noteq> []"
    then have "set ?odds \<noteq> {}"
      by (simp only: set_empty not_False_eq_True)
    from Max_in [OF finite_set this] have "Max (set ?odds) \<in> set ?odds" .
    then have "odd (Max (set ?odds))" and "0 \<le> Max (set ?odds)"
      using assms by auto
    then show ?thesis
      by (cases "Max (set ?odds) = 0") auto
  qed
  have me: "?evens \<noteq> [] \<Longrightarrow> \<not> 0 < Max (set ?evens) \<Longrightarrow> Max (set ?evens) div 2 = 0"
  proof -
    assume ne: "?evens \<noteq> []" and z: "\<not> 0 < Max (set ?evens)"
    from ne have "set ?evens \<noteq> {}"
      by (simp only: set_empty not_False_eq_True)
    from Max_in [OF finite_set this] have "Max (set ?evens) \<in> set ?evens" .
    then have "0 \<le> Max (set ?evens)"
      using assms by auto
    with z show ?thesis
      by simp
  qed
  show ?thesis
    unfolding o e
    using len mo me
    by (auto simp: report_entry_def spec_estimate_def Let_def py_max_Max)
qed

subsection \<open>The second loop of the analysis\<close>

lemma add_seqs_Nil: "add_seqs b [] = b"
  by (simp add: add_seqs_def)

lemma add_seqs_append: "add_seqs (add_seqs b xs) ys = add_seqs b (xs @ ys)"
  by (simp add: add_seqs_def)

lemma add_seqs_single:
  "(if n mod 2 \<noteq> 0 then b\<lparr> male_seqs := male_seqs b @ [n] \<rparr>
    else b\<lparr> female_seqs := female_seqs b @ [n] \<rparr>) = add_seqs b [n]"
  by (simp add: add_seqs_def)

lemma bucket_of_update:
  "bucket_of (AList.update key v stats) k = (if k = key then v else bucket_of stats k)"
  by (simp add: bucket_of_def update_conv')

lemma bucket_seqs_Cons:
  "bucket_seqs U (x # ids) k
   = (if bucket_key x = k then [case sequence_number U x of Inr n \<Rightarrow> n | Inl _ \<Rightarrow> 0] else [])
     @ bucket_seqs U ids k"
  by (simp add: bucket_seqs_def)

lemma stats_loop_spec:
  assumes "\<forall>x \<in> set ids. \<exists>n. sequence_number U x = Inr n"
  shows "\<exists>stats. stats_loop U ids stats0 = Inr stats
           \<and> fst ` set stats = fst ` set stats0 \<union> bucket_key ` set ids
           \<and> (distinct (map fst stats0) \<longrightarrow> distinct (map fst stats))
           \<and> (\<forall>k. bucket_of stats k = add_seqs (bucket_of stats0 k) (bucket_seqs U ids k))"
  using assms
proof (induction ids arbitrary: stats0)
  case Nil
  show ?case
    by (simp add: bucket_seqs_def add_seqs_Nil)
next
  case (Cons x ids)
  from Cons.prems obtain n where n: "sequence_number U x = Inr n"
    by auto
  let ?key = "bucket_key x"
  let ?stats1 = "AList.update ?key (add_seqs (bucket_of stats0 ?key) [n]) stats0"
  have "stats_loop U (x # ids) stats0
        = stats_loop U ids
            (AList.update ?key
               (if n mod 2 \<noteq> 0
                then (bucket_of stats0 ?key)\<lparr> male_seqs := male_seqs (bucket_of stats0 ?key) @ [n] \<rparr>
                else (bucket_of stats0 ?key)\<lparr> female_seqs := female_seqs (bucket_of stats0 ?key) @ [n] \<rparr>)
               stats0)"
    using n by (simp add: sequence_number_def bucket_key_def Let_def bucket_of_def)
  then have step: "stats_loop U (x # ids) stats0 = stats_loop U ids ?stats1"
    by (simp only: add_seqs_single)
  from Cons.prems have "\<forall>y \<in> set ids. \<exists>m. sequence_number U y = Inr m"
    by simp
  from Cons.IH [OF this, of ?stats1] obtain stats where
    r: "stats_loop U ids ?stats1 = Inr stats"
    and keys: "fst ` set stats = fst ` set ?stats1 \<union> bucket_key ` set ids"
    and dist: "distinct (map fst ?stats1) \<longrightarrow> distinct (map fst stats)"
    and b: "\<forall>k. bucket_of stats k = add_seqs (bucket_of ?stats1 k) (bucket_seqs U ids k)"
    by blast
  have "fst ` set stats = fst ` set stats0 \<union> bucket_key ` set (x # ids)"
    using keys by (auto simp: dom_update)
  moreover have "distinct (map fst stats0) \<longrightarrow> distinct (map fst stats)"
    using dist by (simp add: distinct_update)
  moreover have "\<forall>k. bucket_of stats k
                   = add_seqs (bucket_of stats0 k) (bucket_seqs U (x # ids) k)"
    using b n by (simp add: bucket_of_update bucket_seqs_Cons add_seqs_append)
  ultimately show ?case
    using r step by simp
qed

subsection \<open>The third loop of the analysis\<close>

lemma report_loop_keys:
  "fst ` set (report_loop self stats rep)
   = fst ` set rep \<union> report_key self ` fst ` set stats"
proof (induction stats arbitrary: rep)
  case Nil
  show ?case by simp
next
  case (Cons a stats)
  obtain k b where a: "a = (k, b)"
    by (cases a)
  have "fst ` set (report_loop self (a # stats) rep)
        = fst ` set (AList.update (report_key self k) (report_entry b) rep)
          \<union> report_key self ` fst ` set stats"
    using a by (simp add: Cons.IH)
  also have "\<dots> = ({report_key self k} \<union> fst ` set rep) \<union> report_key self ` fst ` set stats"
    by (simp only: dom_update)
  also have "\<dots> = fst ` set rep \<union> report_key self ` fst ` set (a # stats)"
    using a by auto
  finally show ?case .
qed

lemma report_loop_other:
  "\<forall>k \<in> fst ` set stats. report_key self k \<noteq> l \<Longrightarrow>
   map_of (report_loop self stats rep) l = map_of rep l"
  by (induction stats arbitrary: rep) (auto simp: update_conv')

lemma report_loop_unique:
  assumes "distinct (map fst stats)" and "(k, b) \<in> set stats"
    and "\<forall>k' \<in> fst ` set stats. report_key self k' = report_key self k \<longrightarrow> k' = k"
  shows "map_of (report_loop self stats rep) (report_key self k) = Some (report_entry b)"
  using assms
proof (induction stats arbitrary: rep)
  case Nil
  then show ?case by simp
next
  case (Cons a stats)
  obtain k0 b0 where a: "a = (k0, b0)"
    by (cases a)
  show ?case
  proof (cases "k0 = k")
    case True
    with Cons.prems a have b0: "b0 = b" and notin: "k \<notin> fst ` set stats"
      by (auto simp: image_iff)
    from Cons.prems(3) a notin have "\<forall>k' \<in> fst ` set stats. report_key self k' \<noteq> report_key self k"
      by auto
    from report_loop_other [OF this] a True b0 show ?thesis
      by (simp add: update_conv')
  next
    case False
    with Cons.prems a have "distinct (map fst stats)" and "(k, b) \<in> set stats"
      and "\<forall>k' \<in> fst ` set stats. report_key self k' = report_key self k \<longrightarrow> k' = k"
      by auto
    from Cons.IH [OF this] a show ?thesis
      by simp
  qed
qed

lemma add_seqs_empty:
  "add_seqs empty_bucket seqs
   = \<lparr> male_seqs = filter (\<lambda>n. n mod 2 \<noteq> 0) seqs,
       female_seqs = filter (\<lambda>n. \<not> n mod 2 \<noteq> 0) seqs \<rparr>"
  by (simp add: add_seqs_def empty_bucket_def)

lemma bucket_seqs_nonneg:
  assumes "\<forall>x \<in> set ids. \<exists>n. 0 \<le> n \<and> sequence_number U x = Inr n"
  shows "\<forall>n \<in> set (bucket_seqs U ids k). 0 \<le> n"
  using assms by (fastforce simp: bucket_seqs_def)

lemma analysis_spec:
  assumes h: "\<forall>x \<in> set id_list. accepted U self now x \<longrightarrow> take 17 (normalize U x) = take 17 x"
    and v: "valid = filter (accepted U self now) id_list"
  shows "\<exists>r. analyze_population_sample U self now id_list = Inr r
          \<and> total_records (a_summary r) = length id_list
          \<and> valid_records (a_summary r) = length valid
          \<and> invalid_records (a_summary r) = length id_list - length valid
          \<and> fst ` set (a_report r) = report_key self ` bucket_key ` set valid
          \<and> (\<forall>k \<in> bucket_key ` set valid.
               (\<forall>k' \<in> bucket_key ` set valid.
                   report_key self k' = report_key self k \<longrightarrow> k' = k) \<longrightarrow>
               map_of (a_report r) (report_key self k)
               = Some (spec_estimate (bucket_seqs U valid k)))"
proof -
  let ?inv = "map (\<lambda>x. (x, snd (projr (validate U self now x))))
                  (filter (\<lambda>x. \<not> accepted U self now x) id_list)"
  have l1: "validate_loop U self now id_list [] [] = Inr (valid, ?inv)"
    by (simp add: validate_loop_filter v)
  have li: "length ?inv = length id_list - length valid"
    using sum_length_filter_compl [of "accepted U self now" id_list] v by simp
  have sq: "\<forall>x \<in> set valid. \<exists>n. 0 \<le> n \<and> sequence_number U x = Inr n"
    using h v by (auto intro: accepted_sequence_number)
  then have "\<forall>x \<in> set valid. \<exists>n. sequence_number U x = Inr n"
    by blast
  from stats_loop_spec [OF this, of "[]"] obtain stats where
    l2: "stats_loop U valid [] = Inr stats"
    and keys: "fst ` set stats = bucket_key ` set valid"
    and dist: "distinct (map fst stats)"
    and b: "\<forall>k. bucket_of stats k = add_seqs empty_bucket (bucket_seqs U valid k)"
    by (auto simp: bucket_of_def)
  let ?r = "\<lparr> a_summary = \<lparr> total_records = length id_list, valid_records = length valid,
                            invalid_records = length ?inv \<rparr>,
              a_report = report_loop self stats [], a_invalid = ?inv \<rparr>"
  have an: "analyze_population_sample U self now id_list = Inr ?r"
    by (simp add: analyze_population_sample_def l1 l2)
  have rk: "fst ` set (report_loop self stats []) = report_key self ` bucket_key ` set valid"
    by (simp add: report_loop_keys keys)
  have ent: "\<forall>k \<in> bucket_key ` set valid.
               (\<forall>k' \<in> bucket_key ` set valid.
                   report_key self k' = report_key self k \<longrightarrow> k' = k) \<longrightarrow>
               map_of (report_loop self stats []) (report_key self k)
               = Some (spec_estimate (bucket_seqs U valid k))"
  proof (intro ballI impI)
    fix k
    assume k: "k \<in> bucket_key ` set valid"
      and u: "\<forall>k' \<in> bucket_key ` set valid. report_key self k' = report_key self k \<longrightarrow> k' = k"
    from k keys have "k \<in> fst ` set stats"
      by simp
    then obtain b0 where m: "(k, b0) \<in> set stats"
      by auto
    with dist have "map_of stats k = Some b0"
      by simp
    then have "bucket_of stats k = b0"
      by (simp add: bucket_of_def)
    with b [rule_format, of k] have b0: "b0 = add_seqs empty_bucket (bucket_seqs U valid k)"
      by (simp only:)
    from u keys have "\<forall>k' \<in> fst ` set stats. report_key self k' = report_key self k \<longrightarrow> k' = k"
      by simp
    from report_loop_unique [OF dist m this, of "[]"]
    have "map_of (report_loop self stats []) (report_key self k) = Some (report_entry b0)" .
    moreover have "report_entry b0 = spec_estimate (bucket_seqs U valid k)"
      unfolding b0 add_seqs_empty
      by (rule report_entry_spec) (rule bucket_seqs_nonneg [OF sq])
    ultimately show "map_of (report_loop self stats []) (report_key self k)
               = Some (spec_estimate (bucket_seqs U valid k))"
      by simp
  qed
  from an li rk ent show ?thesis
    by simp
qed

lemmas analysis_defs =
  analyze_population_sample_def report_key_def report_entry_def py_max_def empty_bucket_def
  twin_toolkit_def twin_tree_def unknown_area_def bucket_key_def bucket_seqs_def
  sequence_number_def spec_estimate_def accepted_def

section \<open>C6: the population estimate of the analysis\<close>

text \<open>
  Claim C6 says that \<^verbatim>\<open>analyze_population_sample\<close> reports an estimate for every bucket.
  The report is keyed by the display name of the region and the date, not by the
  bucket: when two region codes have the same name, their buckets for one date share a
  key and the later bucket replaces the earlier one. In a table that names 110105 and
  110106 alike, the numbers 110105194912310011 and 110106194912310026 are both
  accepted and fall into two buckets; the first bucket has the odd observation 1, so
  its estimate of males is 1, but the only report entry is that of the second bucket,
  with no males.
\<close>

theorem analysis_report_loses_a_bucket:
  "analyze_population_sample latin1 twin_toolkit sample_now
     [of_ascii ''110105194912310011'', of_ascii ''110106194912310026'']
   = Inr \<lparr> a_summary = \<lparr> total_records = 2, valid_records = 2, invalid_records = 0 \<rparr>,
           a_report = [([26032, 21306] @ of_ascii '' (19491231)'',
                        \<lparr> sample_count = 1, est_males = 0, est_females = 1, est_total = 1 \<rparr>)],
           a_invalid = [] \<rparr>
   \<and> bucket_key (of_ascii ''110105194912310011'') \<noteq> bucket_key (of_ascii ''110106194912310026'')
   \<and> bucket_seqs latin1 [of_ascii ''110105194912310011'', of_ascii ''110106194912310026'']
        (bucket_key (of_ascii ''110105194912310011'')) = [1]
   \<and> est_males (spec_estimate [1]) = 1"
  by (simp add: analysis_defs eval_defs)


text \<open>
  Claim C6, amended. Take an input list in which \<^verbatim>\<open>strip().upper()\<close> leaves the first 17
  characters of every accepted number unchanged (no accepted number begins with white
  space). Then \<^verbatim>\<open>analyze_population_sample\<close> returns a report; it counts the records,
  the accepted and the rejected ones; it groups the accepted numbers into buckets keyed
  by their characters 0 to 5 and 6 to 13; its entries are keyed by the display keys of
  these buckets; and for every bucket whose display key no other bucket shares, the
  entry under that key has the number of observations of the bucket, the estimate of
  males (largest odd sequence number + 1) divided by 2, or 0 if no odd number was
  observed, and the estimate of females largest even sequence number divided by 2, or 0
  if no even number was observed.
\<close>

theorem analysis_report_per_bucket:
  assumes "\<forall>x \<in> set id_list. accepted U self now x \<longrightarrow> take 17 (normalize U x) = take 17 x"
    and "valid = filter (accepted U self now) id_list"
  shows "\<exists>r. analyze_population_sample U self now id_list = Inr r
          \<and> total_records (a_summary r) = length id_list
          \<and> valid_records (a_summary r) = length valid
          \<and> invalid_records (a_summary r) = length id_list - length valid
          \<and> fst ` set (a_report r) = report_key self ` bucket_key ` set valid
          \<and> (\<forall>k \<in> bucket_key ` set valid.
               (\<forall>k' \<in> bucket_key ` set valid.
                   report_key self k' = report_key self k \<longrightarrow> k' = k) \<longrightarrow>
               map_of (a_report r) (report_key self k)
               = Some (spec_estimate (bucket_seqs U valid k)))"
  using assms by (rule analysis_spec)

text \<open>The theorem at a list of two valid numbers of one bucket, with the sequence
  numbers 2 and 1, and one string that is too short.\<close>

theorem analysis_report_per_bucket_witness:
  "accepted latin1 sample_toolkit sample_now (of_ascii ''11010519491231002X'')
   \<and> take 17 (normalize latin1 (of_ascii ''11010519491231002X''))
       = take 17 (of_ascii ''11010519491231002X'')
   \<and> \<not> accepted latin1 sample_toolkit sample_now (of_ascii ''123'')
   \<and> accepted latin1 sample_toolkit sample_now (of_ascii ''110105194912310011'')
   \<and> take 17 (normalize latin1 (of_ascii ''110105194912310011''))
       = take 17 (of_ascii ''110105194912310011'')
   \<and> filter (accepted latin1 sample_toolkit sample_now)
        [of_ascii ''11010519491231002X'', of_ascii ''123'', of_ascii ''110105194912310011'']
      = [of_ascii ''11010519491231002X'', of_ascii ''110105194912310011'']
   \<and> (\<exists>r. analyze_population_sample latin1 sample_toolkit sample_now
              [of_ascii ''11010519491231002X'', of_ascii ''123'', of_ascii ''110105194912310011'']
            = Inr r
          \<and> total_records (a_summary r) = 3
          \<and> valid_records (a_summary r) = 2
          \<and> invalid_records (a_summary r) = 1
          \<and> map_of (a_report r)
               (report_key sample_toolkit (of_ascii ''110105'', of_ascii ''19491231''))
             = Some \<lparr> sample_count = 2, est_males = 1, est_females = 1, est_total = 2 \<rparr>)"
proof -
  let ?ids = "[of_ascii ''11010519491231002X'', of_ascii ''123'', of_ascii ''110105194912310011'']"
  let ?valid = "[of_ascii ''11010519491231002X'', of_ascii ''110105194912310011'']"
  let ?k = "(of_ascii ''110105'', of_ascii ''19491231'')"
  have a1: "accepted latin1 sample_toolkit sample_now (of_ascii ''11010519491231002X'')"
    by (simp add: accepted_def eval_defs)
  have a2: "\<not> accepted latin1 sample_toolkit sample_now (of_ascii ''123'')"
    by (simp add: accepted_def eval_defs)
  have a3: "accepted latin1 sample_toolkit sample_now (of_ascii ''110105194912310011'')"
    by (simp add: accepted_def eval_defs)
  have n1: "take 17 (normalize latin1 (of_ascii ''11010519491231002X''))
            = take 17 (of_ascii ''11010519491231002X'')"
    and n3: "take 17 (normalize latin1 (of_ascii ''110105194912310011''))
            = take 17 (of_ascii ''110105194912310011'')"
    by (simp_all add: normalize_def str_strip_def str_upper_def latin1_def of_ascii_def)
  have h: "\<forall>x \<in> set ?ids. accepted latin1 sample_toolkit sample_now x \<longrightarrow>
             take 17 (normalize latin1 x) = take 17 x"
    using a2 n1 n3 by simp
  have v: "?valid = filter (accepted latin1 sample_toolkit sample_now) ?ids"
    using a1 a2 a3 by simp
  have ks: "bucket_key ` set ?valid = {?k}"
    by (simp add: bucket_key_def of_ascii_def)
  have sq: "bucket_seqs latin1 ?valid ?k = [2, 1]"
    by (simp add: bucket_seqs_def bucket_key_def sequence_number_def eval_defs)
  have est: "spec_estimate [2, 1]
             = \<lparr> sample_count = 2, est_males = 1, est_females = 1, est_total = 2 \<rparr>"
    by (simp add: spec_estimate_def)
  from analysis_report_per_bucket [OF h v] obtain r where
    r: "analyze_population_sample latin1 sample_toolkit sample_now ?ids = Inr r"
    and c: "total_records (a_summary r) = length ?ids"
      "valid_records (a_summary r) = length ?valid"
      "invalid_records (a_summary r) = length ?ids - length ?valid"
    and e: "\<forall>k \<in> bucket_key ` set ?valid.
               (\<forall>k' \<in> bucket_key ` set ?valid.
                   report_key sample_toolkit k' = report_key sample_toolkit k \<longrightarrow> k' = k) \<longrightarrow>
               map_of (a_report r) (report_key sample_toolkit k)
               = Some (spec_estimate (bucket_seqs latin1 ?valid k))"
    by blast
  from e have "map_of (a_report r) (report_key sample_toolkit ?k)
               = Some (spec_estimate (bucket_seqs latin1 ?valid ?k))"
    unfolding ks by simp
  then have m: "map_of (a_report r) (report_key sample_toolkit ?k)
             = Some \<lparr> sample_count = 2, est_males = 1, est_females = 1, est_total = 2 \<rparr>"
    by (simp only: sq est)
  from c have "total_records (a_summary r) = 3" "valid_records (a_summary r) = 2"
    "invalid_records (a_summary r) = 1"
    by simp_all
  with r m v a1 a2 a3 n1 n3 show ?thesis
    by (intro conjI exI [of _ r]) simp_all
qed

end
